theory Spec2Isabelle
  imports Main "HOL-Library.Word"
begin

section \<open>JavaScript values, strings and exceptions\<close>

text \<open>
  The utilities are JavaScript (the bundle compiled from TypeScript). A JavaScript string is
  modelled as a \<^typ>\<open>string\<close>, one \<^typ>\<open>char\<close> per code unit below 256; a number as an
  \<^typ>\<open>int\<close> (fractions and the limits of doubles are outside the model); an object as the
  list of its own enumerable properties in insertion order. \<open>JError stack message\<close> is
  an instance of \<^verbatim>\<open>Error\<close> with its \<^verbatim>\<open>stack\<close> (which may be undefined) and its message.
\<close>

datatype jsval =
    JUndefined
  | JNull
  | JBool bool
  | JNum int
  | JBigInt int
  | JStr string
  | JArr "jsval list"
  | JObj "(string \<times> jsval) list"
  | JError "string option" string

text \<open>
  A thrown value. Every value the sources and the host throw is an \<^verbatim>\<open>Error\<close> object, and
  every \<^verbatim>\<open>catch\<close> of the sources reads only its \<^verbatim>\<open>message\<close>.
\<close>

datatype exn = Error string | TypeError string | SyntaxError string | SystemError string

fun error_message :: "exn \<Rightarrow> string" where
  "error_message (Error m) = m"
| "error_message (TypeError m) = m"
| "error_message (SyntaxError m) = m"
| "error_message (SystemError m) = m"

text \<open>\<^verbatim>\<open>Array.isArray(v)\<close>.\<close>

fun isArray :: "jsval \<Rightarrow> bool" where
  "isArray (JArr xs) = True"
| "isArray v = False"

text \<open>\<^verbatim>\<open>s.split(c)\<close> for a one-character separator: never the empty array.\<close>

fun js_split :: "char \<Rightarrow> string \<Rightarrow> string list" where
  "js_split c [] = [[]]"
| "js_split c (x # xs) =
     (if x = c then [] # js_split c xs
      else (case js_split c xs of [] \<Rightarrow> [[x]] | y # ys \<Rightarrow> (x # y) # ys))"

text \<open>\<^verbatim>\<open>xs.pop()\<close>: the last element, \<^verbatim>\<open>undefined\<close> (here \<^term>\<open>None\<close>) on an empty array.\<close>

definition pop :: "'a list \<Rightarrow> 'a option" where
  "pop xs = (if xs = [] then None else Some (last xs))"

text \<open>\<^verbatim>\<open>xs.join(sep)\<close> on an array of strings.\<close>

fun js_join :: "string \<Rightarrow> string list \<Rightarrow> string" where
  "js_join sep [] = []"
| "js_join sep [x] = x"
| "js_join sep (x # y # ys) = x @ sep @ js_join sep (y # ys)"

text \<open>\<^verbatim>\<open>s.startsWith(t)\<close> and \<^verbatim>\<open>s.includes(t)\<close>.\<close>

definition startsWith :: "string \<Rightarrow> string \<Rightarrow> bool" where
  "startsWith s t = (take (length t) s = t)"

fun js_includes :: "string \<Rightarrow> string \<Rightarrow> bool" where
  "js_includes [] t = (t = [])"
| "js_includes (x # xs) t = (startsWith (x # xs) t \<or> js_includes xs t)"

text \<open>
  \<^verbatim>\<open>s.replace(pat, rep)\<close> with a string pattern: the first occurrence only. (The
  replacement the sources pass is the empty string, so the \<^verbatim>\<open>$\<close> patterns of a replacement do
  not arise.)
\<close>

fun js_replace :: "string \<Rightarrow> string \<Rightarrow> string \<Rightarrow> string" where
  "js_replace [] pat rep = (if pat = [] then rep else [])"
| "js_replace (x # xs) pat rep =
     (if startsWith (x # xs) pat then rep @ drop (length pat) (x # xs)
      else x # js_replace xs pat rep)"

text \<open>
  White space as \<^verbatim>\<open>trim\<close> and the regular expression class \<^verbatim>\<open>\s\<close> read it (space, tab, line
  feed, vertical tab, form feed, carriage return, no-break space), and the class \<^verbatim>\<open>\w\<close>.
\<close>

definition js_space :: "char \<Rightarrow> bool" where
  "js_space c = (c \<in> set [CHR 0x20, CHR 0x09, CHR 0x0A, CHR 0x0B, CHR 0x0C, CHR 0x0D, CHR 0xA0])"

definition js_word :: "char \<Rightarrow> bool" where
  "js_word c =
     (c \<in> set ''ABCDEFGHIJKLMNOPQRSTUVWXYZabcdefghijklmnopqrstuvwxyz0123456789_'')"

definition trim :: "string \<Rightarrow> string" where
  "trim s = rev (dropWhile js_space (rev (dropWhile js_space s)))"

text \<open>Decimal digits of a number: \<^verbatim>\<open>String(n)\<close> for an integer.\<close>

definition digit_char :: "nat \<Rightarrow> char" where
  "digit_char n = ''0123456789'' ! (n mod 10)"

fun show_nat :: "nat \<Rightarrow> string" where
  "show_nat n = (if n < 10 then [digit_char n] else show_nat (n div 10) @ [digit_char n])"

declare show_nat.simps [simp del]

definition show_int :: "int \<Rightarrow> string" where
  "show_int i = (if i < 0 then CHR ''-'' # show_nat (nat (- i)) else show_nat (nat i))"

section \<open>JSON text: \<^verbatim>\<open>JSON.stringify\<close>\<close>

text \<open>
  \<^verbatim>\<open>JSON.stringify(value, null, gap)\<close> as ECMAScript defines it (SerializeJSONProperty,
  SerializeJSONArray, SerializeJSONObject, QuoteJSONString), on the values of the model. A
  BigInt anywhere in the value raises a TypeError; \<^verbatim>\<open>undefined\<close> has no text (\<^term>\<open>None\<close>),
  prints as \<^verbatim>\<open>null\<close> inside an array and drops its member from an object; an
  \<^verbatim>\<open>Error\<close> instance has no enumerable property and prints as \<^verbatim>\<open>{}\<close>.
\<close>

definition hex_digit :: "nat \<Rightarrow> char" where
  "hex_digit n = ''0123456789abcdef'' ! (n mod 16)"

definition quote_char :: "char \<Rightarrow> string" where
  "quote_char c =
     (if c = CHR 0x22 then [CHR 0x5C, CHR 0x22]
      else if c = CHR 0x5C then [CHR 0x5C, CHR 0x5C]
      else if c = CHR 0x08 then [CHR 0x5C, CHR ''b'']
      else if c = CHR 0x0C then [CHR 0x5C, CHR ''f'']
      else if c = CHR 0x0A then [CHR 0x5C, CHR ''n'']
      else if c = CHR 0x0D then [CHR 0x5C, CHR ''r'']
      else if c = CHR 0x09 then [CHR 0x5C, CHR ''t'']
      else if of_char c < (32 :: nat) then
        [CHR 0x5C, CHR ''u'', CHR ''0'', CHR ''0'',
         hex_digit (of_char c div 16), hex_digit (of_char c mod 16)]
      else [c])"

definition QuoteJSONString :: "string \<Rightarrow> string" where
  "QuoteJSONString s = CHR 0x22 # concat (map quote_char s) @ [CHR 0x22]"

fun SerializeJSONProperty :: "string \<Rightarrow> string \<Rightarrow> jsval \<Rightarrow> exn + string option"
  and SerializeJSONElements :: "string \<Rightarrow> string \<Rightarrow> jsval list \<Rightarrow> exn + string list"
  and SerializeJSONMembers :: "string \<Rightarrow> string \<Rightarrow> (string \<times> jsval) list \<Rightarrow> exn + string list"
where
  "SerializeJSONProperty gap indent JUndefined = Inr None"
| "SerializeJSONProperty gap indent JNull = Inr (Some ''null'')"
| "SerializeJSONProperty gap indent (JBool b) = Inr (Some (if b then ''true'' else ''false''))"
| "SerializeJSONProperty gap indent (JNum n) = Inr (Some (show_int n))"
| "SerializeJSONProperty gap indent (JBigInt n) =
     Inl (TypeError ''Do not know how to serialize a BigInt'')"
| "SerializeJSONProperty gap indent (JStr s) = Inr (Some (QuoteJSONString s))"
| "SerializeJSONProperty gap indent (JError stack msg) = Inr (Some ''{}'')"
| "SerializeJSONProperty gap indent (JArr xs) =
     (case SerializeJSONElements gap (indent @ gap) xs of
        Inl e \<Rightarrow> Inl e
      | Inr partial \<Rightarrow>
          Inr (Some
            (if partial = [] then ''[]''
             else if gap = [] then ''['' @ js_join '','' partial @ '']''
             else ''['' @ [CHR 0x0A] @ (indent @ gap)
                  @ js_join ('','' @ [CHR 0x0A] @ (indent @ gap)) partial
                  @ [CHR 0x0A] @ indent @ '']'')))"
| "SerializeJSONProperty gap indent (JObj kvs) =
     (case SerializeJSONMembers gap (indent @ gap) kvs of
        Inl e \<Rightarrow> Inl e
      | Inr partial \<Rightarrow>
          Inr (Some
            (if partial = [] then ''{}''
             else if gap = [] then ''{'' @ js_join '','' partial @ ''}''
             else ''{'' @ [CHR 0x0A] @ (indent @ gap)
                  @ js_join ('','' @ [CHR 0x0A] @ (indent @ gap)) partial
                  @ [CHR 0x0A] @ indent @ ''}'')))"
| "SerializeJSONElements gap indent [] = Inr []"
| "SerializeJSONElements gap indent (x # xs) =
     (case SerializeJSONProperty gap indent x of
        Inl e \<Rightarrow> Inl e
      | Inr strP \<Rightarrow>
          (case SerializeJSONElements gap indent xs of
             Inl e \<Rightarrow> Inl e
           | Inr rest \<Rightarrow> Inr ((case strP of None \<Rightarrow> ''null'' | Some t \<Rightarrow> t) # rest)))"
| "SerializeJSONMembers gap indent [] = Inr []"
| "SerializeJSONMembers gap indent ((k, v) # kvs) =
     (case SerializeJSONProperty gap indent v of
        Inl e \<Rightarrow> Inl e
      | Inr strP \<Rightarrow>
          (case SerializeJSONMembers gap indent kvs of
             Inl e \<Rightarrow> Inl e
           | Inr rest \<Rightarrow>
               Inr (case strP of
                      None \<Rightarrow> rest
                    | Some t \<Rightarrow>
                        (QuoteJSONString k @ '':'' @ (if gap = [] then [] else '' '') @ t) # rest)))"

text \<open>
  \<^verbatim>\<open>JSON.stringify(value)\<close> (no gap) and \<^verbatim>\<open>JSON.stringify(value, null, n)\<close> (a gap of \<open>n\<close>
  spaces, at most ten).
\<close>

definition JSON_stringify :: "jsval \<Rightarrow> nat \<Rightarrow> exn + string option" where
  "JSON_stringify v n = SerializeJSONProperty (replicate (min n 10) CHR '' '') [] v"

section \<open>MIME resolver (src/files/mimeType.ts)\<close>

text \<open>
  The \<^verbatim>\<open>switch\<close> of \<^verbatim>\<open>mimeType\<close>, case by case in the order of the source; labels that
  fall through to one \<^verbatim>\<open>return\<close> are one disjunction.
\<close>

definition mime_switch :: "string option \<Rightarrow> string" where
  "mime_switch ext =
     (if ext = Some ''mp4'' then ''video/mp4''
     else if ext = Some ''mpeg'' \<or> ext = Some ''mpg'' \<or> ext = Some ''mpe'' \<or> ext = Some ''mpv'' \<or> ext = Some ''mp2'' \<or> ext = Some ''m2v'' \<or> ext = Some ''m2ts'' \<or> ext = Some ''mts'' \<or> ext = Some ''tts'' \<or> ext = Some ''m2t'' \<or> ext = Some ''tsv'' \<or> ext = Some ''tsa'' then ''video/mpeg''
     else if ext = Some ''webm'' then ''video/webm''
     else if ext = Some ''3gp'' then ''video/3gpp''
     else if ext = Some ''mkv'' then ''video/x-matroska''
     else if ext = Some ''avi'' then ''video/x-msvideo''
     else if ext = Some ''mov'' then ''video/quicktime''
     else if ext = Some ''wmv'' then ''video/x-ms-wmv''
     else if ext = Some ''flv'' then ''video/x-flv''
     else if ext = Some ''m4v'' then ''video/x-m4v''
     else if ext = Some ''mp3'' then ''audio/mpeg''
     else if ext = Some ''m4a'' then ''audio/mp4''
     else if ext = Some ''m4b'' \<or> ext = Some ''m4p'' \<or> ext = Some ''m4r'' then ''audio/mp4''
     else if ext = Some ''wav'' then ''audio/wav''
     else if ext = Some ''ogg'' then ''audio/ogg''
     else if ext = Some ''aac'' then ''audio/aac''
     else if ext = Some ''flac'' then ''audio/flac''
     else if ext = Some ''alac'' then ''audio/alac''
     else if ext = Some ''jpg'' \<or> ext = Some ''jpeg'' then ''image/jpeg''
     else if ext = Some ''png'' then ''image/png''
     else if ext = Some ''gif'' then ''image/gif''
     else if ext = Some ''bmp'' then ''image/bmp''
     else if ext = Some ''webp'' then ''image/webp''
     else if ext = Some ''svg'' then ''image/svg+xml''
     else if ext = Some ''ico'' then ''image/x-icon''
     else if ext = Some ''tiff'' then ''image/tiff''
     else if ext = Some ''psd'' then ''image/vnd.adobe.photoshop''
     else if ext = Some ''ai'' then ''application/postscript''
     else if ext = Some ''eps'' then ''application/postscript''
     else if ext = Some ''indd'' then ''application/x-indesign''
     else if ext = Some ''raw'' then ''image/x-raw''
     else if ext = Some ''cr2'' then ''image/x-canon-cr2''
     else if ext = Some ''nef'' then ''image/x-nikon-nef''
     else if ext = Some ''orf'' then ''image/x-olympus-orf''
     else if ext = Some ''rw2'' then ''image/x-panasonic-rw2''
     else if ext = Some ''pef'' then ''image/x-pentax-pef''
     else if ext = Some ''arw'' then ''image/x-sony-arw''
     else if ext = Some ''dng'' then ''image/x-adobe-dng''
     else if ext = Some ''x3f'' then ''image/x-sigma-x3f''
     else if ext = Some ''cr3'' then ''image/x-canon-cr3''
     else if ext = Some ''heic'' then ''image/heic''
     else if ext = Some ''heif'' then ''image/heif''
     else if ext = Some ''avif'' then ''image/avif''
     else if ext = Some ''pdf'' then ''application/pdf''
     else if ext = Some ''txt'' then ''text/plain''
     else if ext = Some ''html'' then ''text/html''
     else if ext = Some ''css'' then ''text/css''
     else if ext = Some ''js'' then ''application/javascript''
     else if ext = Some ''json'' then ''application/json''
     else if ext = Some ''xml'' then ''application/xml''
     else if ext = Some ''zip'' then ''application/zip''
     else if ext = Some ''rar'' then ''application/x-rar-compressed''
     else if ext = Some ''7z'' then ''application/x-7z-compressed''
     else ''application/octet-stream'')"

definition mimeType :: "string \<Rightarrow> string" where
  "mimeType fileName = (let ext = pop (js_split CHR ''.'' fileName) in mime_switch ext)"

text \<open>
  The extension table the \<^verbatim>\<open>switch\<close> implements, one row per \<^verbatim>\<open>case\<close> label, used to
  state what \<^const>\<open>mimeType\<close> computes as a lookup.
\<close>

definition mime_table :: "(string \<times> string) list" where
  "mime_table =
    [(''mp4'', ''video/mp4''),
     (''mpeg'', ''video/mpeg''),
     (''mpg'', ''video/mpeg''),
     (''mpe'', ''video/mpeg''),
     (''mpv'', ''video/mpeg''),
     (''mp2'', ''video/mpeg''),
     (''m2v'', ''video/mpeg''),
     (''m2ts'', ''video/mpeg''),
     (''mts'', ''video/mpeg''),
     (''tts'', ''video/mpeg''),
     (''m2t'', ''video/mpeg''),
     (''tsv'', ''video/mpeg''),
     (''tsa'', ''video/mpeg''),
     (''webm'', ''video/webm''),
     (''3gp'', ''video/3gpp''),
     (''mkv'', ''video/x-matroska''),
     (''avi'', ''video/x-msvideo''),
     (''mov'', ''video/quicktime''),
     (''wmv'', ''video/x-ms-wmv''),
     (''flv'', ''video/x-flv''),
     (''m4v'', ''video/x-m4v''),
     (''mp3'', ''audio/mpeg''),
     (''m4a'', ''audio/mp4''),
     (''m4b'', ''audio/mp4''),
     (''m4p'', ''audio/mp4''),
     (''m4r'', ''audio/mp4''),
     (''wav'', ''audio/wav''),
     (''ogg'', ''audio/ogg''),
     (''aac'', ''audio/aac''),
     (''flac'', ''audio/flac''),
     (''alac'', ''audio/alac''),
     (''jpg'', ''image/jpeg''),
     (''jpeg'', ''image/jpeg''),
     (''png'', ''image/png''),
     (''gif'', ''image/gif''),
     (''bmp'', ''image/bmp''),
     (''webp'', ''image/webp''),
     (''svg'', ''image/svg+xml''),
     (''ico'', ''image/x-icon''),
     (''tiff'', ''image/tiff''),
     (''psd'', ''image/vnd.adobe.photoshop''),
     (''ai'', ''application/postscript''),
     (''eps'', ''application/postscript''),
     (''indd'', ''application/x-indesign''),
     (''raw'', ''image/x-raw''),
     (''cr2'', ''image/x-canon-cr2''),
     (''nef'', ''image/x-nikon-nef''),
     (''orf'', ''image/x-olympus-orf''),
     (''rw2'', ''image/x-panasonic-rw2''),
     (''pef'', ''image/x-pentax-pef''),
     (''arw'', ''image/x-sony-arw''),
     (''dng'', ''image/x-adobe-dng''),
     (''x3f'', ''image/x-sigma-x3f''),
     (''cr3'', ''image/x-canon-cr3''),
     (''heic'', ''image/heic''),
     (''heif'', ''image/heif''),
     (''avif'', ''image/avif''),
     (''pdf'', ''application/pdf''),
     (''txt'', ''text/plain''),
     (''html'', ''text/html''),
     (''css'', ''text/css''),
     (''js'', ''application/javascript''),
     (''json'', ''application/json''),
     (''xml'', ''application/xml''),
     (''zip'', ''application/zip''),
     (''rar'', ''application/x-rar-compressed''),
     (''7z'', ''application/x-7z-compressed'')]"

section \<open>JSON text: \<^verbatim>\<open>JSON.parse\<close>\<close>

text \<open>
  \<^verbatim>\<open>JSON.parse(text)\<close> by recursive descent over the JSON grammar: white space (space, tab,
  line feed, carriage return) between tokens, the literals, strings with their escapes,
  integers, arrays and objects. A result is the value and the text left after it. Numbers
  with a fraction or an exponent and \<^verbatim>\<open>\u\<close> escapes of code units above 255 have no value in
  this model of JavaScript values and are refused like malformed text.
\<close>

definition json_ws :: "char \<Rightarrow> bool" where
  "json_ws c = (c \<in> set [CHR 0x20, CHR 0x09, CHR 0x0A, CHR 0x0D])"

definition skip_ws :: "string \<Rightarrow> string" where
  "skip_ws s = dropWhile json_ws s"

definition is_digit :: "char \<Rightarrow> bool" where
  "is_digit c = (c \<in> set ''0123456789'')"

definition digit_val :: "char \<Rightarrow> nat" where
  "digit_val c = of_char c - 48"

definition digits_val :: "string \<Rightarrow> nat" where
  "digits_val ds = fold (\<lambda>c n. 10 * n + digit_val c) ds 0"

definition parse_number :: "string \<Rightarrow> (int \<times> string) option" where
  "parse_number s =
     (let neg = (s \<noteq> [] \<and> hd s = CHR ''-'');
          s1 = (if neg then tl s else s);
          ds = takeWhile is_digit s1;
          rest = dropWhile is_digit s1
      in if ds = [] \<or> (length ds > 1 \<and> hd ds = CHR ''0'') then None
         else if rest \<noteq> [] \<and> hd rest \<in> set ''.eE'' then None
         else Some (if neg then - int (digits_val ds) else int (digits_val ds), rest))"

definition hex_val :: "char \<Rightarrow> nat option" where
  "hex_val c =
     (if c \<in> set ''0123456789'' then Some (of_char c - 48)
      else if c \<in> set ''abcdef'' then Some (of_char c - 87)
      else if c \<in> set ''ABCDEF'' then Some (of_char c - 55)
      else None)"

definition hex4 :: "char \<Rightarrow> char \<Rightarrow> char \<Rightarrow> char \<Rightarrow> char option" where
  "hex4 a b c d =
     (case (hex_val a, hex_val b, hex_val c, hex_val d) of
        (Some x, Some y, Some z, Some w) \<Rightarrow>
          (let n = ((x * 16 + y) * 16 + z) * 16 + w in if n < 256 then Some (char_of n) else None)
      | _ \<Rightarrow> None)"

definition unescape :: "char \<Rightarrow> char option" where
  "unescape e =
     (if e = CHR 0x22 then Some (CHR 0x22)
      else if e = CHR 0x5C then Some (CHR 0x5C)
      else if e = CHR ''/'' then Some (CHR ''/'')
      else if e = CHR ''b'' then Some (CHR 0x08)
      else if e = CHR ''f'' then Some (CHR 0x0C)
      else if e = CHR ''n'' then Some (CHR 0x0A)
      else if e = CHR ''r'' then Some (CHR 0x0D)
      else if e = CHR ''t'' then Some (CHR 0x09)
      else None)"

text \<open>The characters of a string after its opening quote, up to the closing one.\<close>

fun parse_chars :: "string \<Rightarrow> (string \<times> string) option" where
  "parse_chars [] = None"
| "parse_chars (c # r) =
     (if c = CHR 0x22 then Some ([], r)
      else if c = CHR 0x5C then
        (case r of
           [] \<Rightarrow> None
         | e # r1 \<Rightarrow>
             if e = CHR ''u'' then
               (case r1 of
                  a # b # c' # d # r2 \<Rightarrow>
                    (case hex4 a b c' d of
                       None \<Rightarrow> None
                     | Some ch \<Rightarrow>
                         (case parse_chars r2 of
                            None \<Rightarrow> None
                          | Some (str, rest) \<Rightarrow> Some (ch # str, rest)))
                | _ \<Rightarrow> None)
             else
               (case unescape e of
                  None \<Rightarrow> None
                | Some ch \<Rightarrow>
                    (case parse_chars r1 of
                       None \<Rightarrow> None
                     | Some (str, rest) \<Rightarrow> Some (ch # str, rest))))
      else if of_char c < (32 :: nat) then None
      else (case parse_chars r of
              None \<Rightarrow> None
            | Some (str, rest) \<Rightarrow> Some (c # str, rest)))"

text \<open>
  The properties of a parsed object: a member whose key is already there replaces the value
  and keeps the place of the first one, as defining a property does.
\<close>

definition obj_put :: "(string \<times> jsval) list \<Rightarrow> string \<Rightarrow> jsval \<Rightarrow> (string \<times> jsval) list" where
  "obj_put kvs k v =
     (if k \<in> set (map fst kvs) then map (\<lambda>(k', v'). if k' = k then (k', v) else (k', v')) kvs
      else kvs @ [(k, v)])"

definition js_object :: "(string \<times> jsval) list \<Rightarrow> (string \<times> jsval) list" where
  "js_object members = fold (\<lambda>(k, v) kvs. obj_put kvs k v) members []"

text \<open>
  The grammar. After a comma the parser goes on with the text that is left; the test that
  this text is shorter than the input makes the recursion well-founded, and it always holds
  (\<open>parse_value_shorter\<close> below).
\<close>

function parse_value :: "string \<Rightarrow> (jsval \<times> string) option"
  and parse_elements :: "string \<Rightarrow> (jsval list \<times> string) option"
  and parse_members :: "string \<Rightarrow> ((string \<times> jsval) list \<times> string) option"
where
  "parse_value s =
     (case skip_ws s of
        [] \<Rightarrow> None
      | c # r \<Rightarrow>
          if c = CHR ''['' then
            (case skip_ws r of
               [] \<Rightarrow> None
             | c1 # r1 \<Rightarrow>
                 if c1 = CHR '']'' then Some (JArr [], r1)
                 else (case parse_elements r of
                         None \<Rightarrow> None
                       | Some (xs, rest) \<Rightarrow> Some (JArr xs, rest)))
          else if c = CHR ''{'' then
            (case skip_ws r of
               [] \<Rightarrow> None
             | c1 # r1 \<Rightarrow>
                 if c1 = CHR ''}'' then Some (JObj [], r1)
                 else (case parse_members r of
                         None \<Rightarrow> None
                       | Some (kvs, rest) \<Rightarrow> Some (JObj (js_object kvs), rest)))
          else if c = CHR 0x22 then
            (case parse_chars r of
               None \<Rightarrow> None
             | Some (str, rest) \<Rightarrow> Some (JStr str, rest))
          else if startsWith (c # r) ''true'' then Some (JBool True, drop 4 (c # r))
          else if startsWith (c # r) ''false'' then Some (JBool False, drop 5 (c # r))
          else if startsWith (c # r) ''null'' then Some (JNull, drop 4 (c # r))
          else (case parse_number (c # r) of
                  None \<Rightarrow> None
                | Some (n, rest) \<Rightarrow> Some (JNum n, rest)))"
| "parse_elements s =
     (case parse_value s of
        None \<Rightarrow> None
      | Some (v, r) \<Rightarrow>
          (case skip_ws r of
             [] \<Rightarrow> None
           | c # r1 \<Rightarrow>
               if c = CHR '','' then
                 (if length r1 < length s then
                    (case parse_elements r1 of
                       None \<Rightarrow> None
                     | Some (vs, rest) \<Rightarrow> Some (v # vs, rest))
                  else None)
               else if c = CHR '']'' then Some ([v], r1)
               else None))"
| "parse_members s =
     (case skip_ws s of
        [] \<Rightarrow> None
      | c # r \<Rightarrow>
          if c = CHR 0x22 then
            (case parse_chars r of
               None \<Rightarrow> None
             | Some (k, r1) \<Rightarrow>
                 (case skip_ws r1 of
                    [] \<Rightarrow> None
                  | c1 # r2 \<Rightarrow>
                      if c1 = CHR '':'' \<and> length r2 < length s then
                        (case parse_value r2 of
                           None \<Rightarrow> None
                         | Some (v, r3) \<Rightarrow>
                             (case skip_ws r3 of
                                [] \<Rightarrow> None
                              | c3 # r4 \<Rightarrow>
                                  if c3 = CHR '','' then
                                    (if length r4 < length s then
                                       (case parse_members r4 of
                                          None \<Rightarrow> None
                                        | Some (kvs, rest) \<Rightarrow> Some ((k, v) # kvs, rest))
                                     else None)
                                  else if c3 = CHR ''}'' then Some ([(k, v)], r4)
                                  else None))
                      else None))
          else None)"
  by pat_completeness auto
termination
proof (relation "measure (\<lambda>x. case x of
          Inl s \<Rightarrow> 2 * length s
        | Inr (Inl s) \<Rightarrow> 2 * length s + 1
        | Inr (Inr s) \<Rightarrow> 2 * length s + 1)")
  fix s :: string and c r
  assume "skip_ws s = c # r"
  then have "length (c # r) \<le> length s"
    unfolding skip_ws_def by (metis length_dropWhile_le)
  then have "length r < length s" by simp
  then show "(Inr (Inl r), Inl s) \<in> measure (\<lambda>x. case x of
          Inl s \<Rightarrow> 2 * length s
        | Inr (Inl s) \<Rightarrow> 2 * length s + 1
        | Inr (Inr s) \<Rightarrow> 2 * length s + 1)"
    and "(Inr (Inr r), Inl s) \<in> measure (\<lambda>x. case x of
          Inl s \<Rightarrow> 2 * length s
        | Inr (Inl s) \<Rightarrow> 2 * length s + 1
        | Inr (Inr s) \<Rightarrow> 2 * length s + 1)"
    by simp_all
qed simp_all

declare parse_value.simps [simp del] parse_elements.simps [simp del] parse_members.simps [simp del]

definition JSON_parse :: "string \<Rightarrow> exn + jsval" where
  "JSON_parse text =
     (case parse_value text of
        None \<Rightarrow> Inl (SyntaxError ''Unexpected token in JSON'')
      | Some (v, rest) \<Rightarrow>
          if skip_ws rest = [] then Inr v else Inl (SyntaxError ''Unexpected token in JSON''))"

text \<open>
  The value a JSON text of \<open>v\<close> stands for: \<^verbatim>\<open>undefined\<close> is \<^verbatim>\<open>null\<close> inside an array and no
  member inside an object, an \<^verbatim>\<open>Error\<close> instance is the empty object, and the members of an
  object are its properties. For a value made of \<^verbatim>\<open>null\<close>, booleans, numbers, strings, arrays
  and objects with distinct keys it is the value itself.
\<close>

fun json_of :: "jsval \<Rightarrow> jsval"
  and json_elements :: "jsval list \<Rightarrow> jsval list"
  and json_members :: "(string \<times> jsval) list \<Rightarrow> (string \<times> jsval) list"
where
  "json_of (JArr xs) = JArr (json_elements xs)"
| "json_of (JObj kvs) = JObj (js_object (json_members kvs))"
| "json_of (JError stack msg) = JObj []"
| "json_of JUndefined = JUndefined"
| "json_of JNull = JNull"
| "json_of (JBool b) = JBool b"
| "json_of (JNum n) = JNum n"
| "json_of (JBigInt n) = JBigInt n"
| "json_of (JStr s) = JStr s"
| "json_elements [] = []"
| "json_elements (x # xs) = (if x = JUndefined then JNull else json_of x) # json_elements xs"
| "json_members [] = []"
| "json_members ((k, v) # kvs) =
     (if v = JUndefined then json_members kvs else (k, json_of v) # json_members kvs)"

text \<open>
  Three notions the properties of the parser are stated with: what may follow a number (the
  end of the text, or a character that is neither a digit nor one that would extend the
  number), a string of white space, and the first character of the text of a value.
\<close>

definition delimited :: "string \<Rightarrow> bool" where
  "delimited rest = (rest = [] \<or> \<not> is_digit (hd rest) \<and> hd rest \<notin> set ''.eE'')"

definition blank :: "string \<Rightarrow> bool" where
  "blank w = (\<forall>c \<in> set w. json_ws c)"

definition starts_value :: "string \<Rightarrow> bool" where
  "starts_value t =
     (t \<noteq> [] \<and> \<not> json_ws (hd t) \<and> hd t \<noteq> CHR '']'' \<and> hd t \<noteq> CHR ''}'')"

section \<open>File system\<close>

text \<open>
  The part of the host's file system the JSON store touches: a path names a regular file
  with its text, a directory, or nothing. \<^verbatim>\<open>path.dirname\<close> is the POSIX one of the host.
  Reading fails on a missing path and on a directory; writing fails on a directory and where
  the parent is not a directory; \<^verbatim>\<open>mkdirSync\<close> with \<^verbatim>\<open>recursive\<close> makes the directory (the chain
  of ancestors above it and permissions are outside the model). A failed call leaves the
  file system as it was.
\<close>

datatype node = File string | Dir

type_synonym fsys = "string \<rightharpoonup> node"

definition path_dirname :: "string \<Rightarrow> string" where
  "path_dirname path =
     (case path of
        [] \<Rightarrow> ''.''
      | c # t \<Rightarrow>
          (let hasRoot = (c = CHR ''/'');
               t' = rev (dropWhile (\<lambda>x. x = CHR ''/'') (rev t))
           in if CHR ''/'' \<notin> set t' then (if hasRoot then ''/'' else ''.'')
              else (let end = length t' - length (takeWhile (\<lambda>x. x \<noteq> CHR ''/'') (rev t'))
                    in if hasRoot \<and> end = 1 then ''//'' else take end path)))"

definition existsSync :: "fsys \<Rightarrow> string \<Rightarrow> bool" where
  "existsSync fs p = (fs p \<noteq> None)"

definition mkdirSync :: "fsys \<Rightarrow> string \<Rightarrow> exn + fsys" where
  "mkdirSync fs p =
     (case fs p of
        Some (File text) \<Rightarrow>
          Inl (SystemError (''EEXIST: file already exists, mkdir '' @ [CHR 0x27] @ p @ [CHR 0x27]))
      | _ \<Rightarrow> Inr (fs(p \<mapsto> Dir)))"

definition readFile :: "fsys \<Rightarrow> string \<Rightarrow> exn + string" where
  "readFile fs p =
     (case fs p of
        None \<Rightarrow>
          Inl (SystemError (''ENOENT: no such file or directory, open '' @ [CHR 0x27] @ p @ [CHR 0x27]))
      | Some Dir \<Rightarrow> Inl (SystemError ''EISDIR: illegal operation on a directory, read'')
      | Some (File text) \<Rightarrow> Inr text)"

definition writeFile :: "fsys \<Rightarrow> string \<Rightarrow> string option \<Rightarrow> exn + fsys" where
  "writeFile fs p content =
     (case content of
        None \<Rightarrow>
          Inl (TypeError ''The data argument must be of type string or an instance of Buffer, TypedArray, or DataView. Received undefined'')
      | Some text \<Rightarrow>
          (case fs p of
             Some Dir \<Rightarrow>
               Inl (SystemError (''EISDIR: illegal operation on a directory, open '' @ [CHR 0x27] @ p @ [CHR 0x27]))
           | Some (File old) \<Rightarrow> Inr (fs(p \<mapsto> File text))
           | None \<Rightarrow>
               if fs (path_dirname p) = Some Dir then Inr (fs(p \<mapsto> File text))
               else if fs (path_dirname p) = None then
                 Inl (SystemError (''ENOENT: no such file or directory, open '' @ [CHR 0x27] @ p @ [CHR 0x27]))
               else
                 Inl (SystemError (''ENOTDIR: not a directory, open '' @ [CHR 0x27] @ p @ [CHR 0x27]))))"

section \<open>JSON store (src/files/IOFiles.ts)\<close>

text \<open>\<^verbatim>\<open>IOF.existsFileSync\<close>: \<^verbatim>\<open>fs.existsSync\<close> never raises, so the \<^verbatim>\<open>catch\<close> never runs.\<close>

definition existsFileSync :: "fsys \<Rightarrow> string \<Rightarrow> bool" where
  "existsFileSync fs filePath = existsSync fs filePath"

text \<open>\<^verbatim>\<open>IOF.mkdir\<close>.\<close>

definition mkdir :: "fsys \<Rightarrow> string \<Rightarrow> exn + fsys" where
  "mkdir fs dirPath =
     (if \<not> existsFileSync fs dirPath then
        (case mkdirSync fs dirPath of
           Inl error \<Rightarrow>
             Inl (Error (''Failed to create directory at '' @ dirPath @ '':  '' @ error_message error))
         | Inr fs' \<Rightarrow> Inr fs')
      else Inr fs)"

text \<open>The elements of an array value (\<^verbatim>\<open>[...v]\<close>).\<close>

fun elements :: "jsval \<Rightarrow> jsval list" where
  "elements (JArr xs) = xs"
| "elements v = []"

record write_params =
  param_filePath :: string
  param_data :: jsval
  param_overwrite :: "bool option"

text \<open>
  The body of the \<^verbatim>\<open>try\<close> of \<^verbatim>\<open>IOF.writeJSONFile\<close>: the outcome and the file system it leaves
  (a call that fails after \<^verbatim>\<open>mkdir\<close> leaves the directory).
\<close>

definition writeJSONFile_try ::
  "fsys \<Rightarrow> string \<Rightarrow> jsval \<Rightarrow> bool \<Rightarrow> (exn + unit) \<times> fsys" where
  "writeJSONFile_try fs filePath data overwrite =
     (case (if \<not> existsFileSync fs (path_dirname filePath) then mkdir fs (path_dirname filePath)
            else Inr fs) of
        Inl e \<Rightarrow> (Inl e, fs)
      | Inr fs1 \<Rightarrow>
          (case (if overwrite \<or> \<not> existsFileSync fs1 filePath then
                   Inr (if isArray data then elements data else [data])
                 else
                   (case readFile fs1 filePath of
                      Inl e \<Rightarrow> Inl e
                    | Inr jsonData \<Rightarrow>
                        (case JSON_parse jsonData of
                           Inl e \<Rightarrow> Inl e
                         | Inr parsed \<Rightarrow>
                             (let arrayData = (if \<not> isArray parsed then [] else elements parsed)
                              in if isArray data then Inr (arrayData @ elements data)
                                 else Inr (arrayData @ [data]))))) of
             Inl e \<Rightarrow> (Inl e, fs1)
           | Inr finalData \<Rightarrow>
               (case JSON_stringify (JArr finalData) 2 of
                  Inl e \<Rightarrow> (Inl e, fs1)
                | Inr newJsonData \<Rightarrow>
                    (case writeFile fs1 filePath newJsonData of
                       Inl e \<Rightarrow> (Inl e, fs1)
                     | Inr fs2 \<Rightarrow> (Inr (), fs2)))))"

definition writeJSONFile :: "fsys \<Rightarrow> write_params \<Rightarrow> (exn + unit) \<times> fsys" where
  "writeJSONFile fs params =
     (let filePath = param_filePath params;
          data = param_data params;
          overwrite = (case param_overwrite params of None \<Rightarrow> False | Some b \<Rightarrow> b)
      in case writeJSONFile_try fs filePath data overwrite of
           (Inl error, fs') \<Rightarrow>
             (Inl (Error (''Failed to write JSON to '' @ filePath @ '': '' @ error_message error)), fs')
         | (Inr u, fs') \<Rightarrow> (Inr (), fs'))"

definition readJSONFile :: "fsys \<Rightarrow> string \<Rightarrow> exn + jsval" where
  "readJSONFile fs filePath =
     (case (if \<not> existsSync fs filePath then Inl (Error (''File not found: '' @ filePath))
            else
              (case readFile fs filePath of
                 Inl e \<Rightarrow> Inl e
               | Inr jsonData \<Rightarrow>
                   (case JSON_parse jsonData of
                      Inl e \<Rightarrow> Inl e
                    | Inr arr \<Rightarrow>
                        if \<not> isArray arr then
                          Inl (Error (''File content is not an array: '' @ filePath))
                        else Inr arr))) of
        Inl error \<Rightarrow>
          Inl (Error (''Failed to read JSON from '' @ filePath @ '': '' @ error_message error))
      | Inr arr \<Rightarrow> Inr arr)"

text \<open>
  Notions the properties of the store are stated with. A path is fresh when nothing is there
  and its parent is missing or a directory; \<open>normalized\<close> is the array a write makes of its data
  (a sequence as it is, any other item wrapped in a one-element array); \<open>ensured\<close> is the file
  system after the parent directory has been made; \<open>notOverwrite\<close> is the append mode
  (\<^verbatim>\<open>overwrite\<close> false or left out).
\<close>

definition fresh :: "fsys \<Rightarrow> string \<Rightarrow> bool" where
  "fresh fs p =
     (fs p = None \<and> path_dirname p \<noteq> p
      \<and> (fs (path_dirname p) = None \<or> fs (path_dirname p) = Some Dir))"

definition normalized :: "jsval \<Rightarrow> jsval list" where
  "normalized d = (if isArray d then elements d else [d])"

definition ensured :: "fsys \<Rightarrow> string \<Rightarrow> fsys" where
  "ensured fs p = (if fs (path_dirname p) = None then fs(path_dirname p \<mapsto> Dir) else fs)"

definition notOverwrite :: "bool option \<Rightarrow> bool" where
  "notOverwrite ow = (ow = None \<or> ow = Some False)"

text \<open>Example files: a fresh path, and a directory with a file whose root is an object.\<close>

definition example_path :: string where
  "example_path = ''/tmp/store/data.json''"



section \<open>Buffer digest (src/files/IOFiles.ts)\<close>

text \<open>
  The argument of the two buffer functions: a \<^verbatim>\<open>Buffer\<close> with its bytes, or any other value.
  The digest function of the host's \<^verbatim>\<open>crypto\<close> module is a parameter \<open>sha256\<close>, from the
  bytes to the 256 bits of the digest; \<^verbatim>\<open>digest("hex")\<close> writes them as hexadecimal digits,
  the most significant first.
\<close>

datatype buffer_arg = Buffer "8 word list" | NotBuffer jsval

definition digest_hex :: "256 word \<Rightarrow> string" where
  "digest_hex w = map (\<lambda>i. hex_digit (unat (drop_bit (4 * (63 - i)) w) mod 16)) [0..<64]"

definition calculateHashByBuffer :: "(8 word list \<Rightarrow> 256 word) \<Rightarrow> buffer_arg \<Rightarrow> exn + string" where
  "calculateHashByBuffer sha256 buffer =
     (case buffer of
        NotBuffer v \<Rightarrow> Inl (Error ''Input must be a Buffer'')
      | Buffer bytes \<Rightarrow>
          if length bytes = 0 then Inl (Error ''Buffer cannot be empty'')
          else Inr (digest_hex (sha256 bytes)))"

definition calculateSizeByBuffer :: "buffer_arg \<Rightarrow> exn + nat" where
  "calculateSizeByBuffer buffer =
     (case buffer of
        NotBuffer v \<Rightarrow> Inl (Error ''Input must be a Buffer'')
      | Buffer bytes \<Rightarrow>
          if length bytes = 0 then Inl (Error ''Buffer cannot be empty'')
          else Inr (length bytes))"

text \<open>An example digest function: the SHA-256 digest of the three bytes \<^verbatim>\<open>abc\<close>.\<close>

definition abc_digest :: "8 word list \<Rightarrow> 256 word" where
  "abc_digest bytes = 0xba7816bf8f01cfea414140de5dae2223b00361a396177a9cb410ff61f20015ad"

section \<open>Terminal palette (src/terminal/terminalColors.ts)\<close>

text \<open>
  The ANSI table. \<open>TerminalColors name\<close> is what \<^verbatim>\<open>TerminalColors[name]\<close> renders as
  inside a template literal: the escape sequence of a constant, the source text of one of
  the four builder functions, and \<^verbatim>\<open>undefined\<close> (\<^term>\<open>None\<close>) for any other name.
  (Properties inherited from \<^verbatim>\<open>Object.prototype\<close> are outside the model.)
\<close>

definition esc :: "string \<Rightarrow> string" where
  "esc code = CHR 0x1B # CHR ''['' # code"

definition builder_source :: "string \<Rightarrow> string \<Rightarrow> string" where
  "builder_source args body =
     args @ '' => '' @ [CHR 0x60, CHR 0x5C] @ ''x1B['' @ body @ ''m'' @ [CHR 0x60]"

definition TerminalColors :: "(string \<times> string) list" where
  "TerminalColors =
    [(''_reset'', esc ''0m''), (''_bright'', esc ''1m''), (''_dim'', esc ''2m''),
     (''_italic'', esc ''3m''), (''_underline'', esc ''4m''), (''_blink'', esc ''5m''),
     (''_reverse'', esc ''7m''), (''_hidden'', esc ''8m''), (''_strikethrough'', esc ''9m''),
     (''BLACK'', esc ''30m''), (''RED'', esc ''31m''), (''GREEN'', esc ''32m''),
     (''YELLOW'', esc ''33m''), (''BLUE'', esc ''34m''), (''MAGENTA'', esc ''35m''),
     (''CYAN'', esc ''36m''), (''WHITE'', esc ''37m''),
     (''BRIGHT_BLACK'', esc ''90m''), (''BRIGHT_RED'', esc ''91m''),
     (''BRIGHT_GREEN'', esc ''92m''), (''BRIGHT_YELLOW'', esc ''93m''),
     (''BRIGHT_BLUE'', esc ''94m''), (''BRIGHT_MAGENTA'', esc ''95m''),
     (''BRIGHT_CYAN'', esc ''96m''), (''BRIGHT_WHITE'', esc ''97m''),
     (''BBLACK'', esc ''40m''), (''BRED'', esc ''41m''), (''BGREEN'', esc ''42m''),
     (''BYELLOW'', esc ''43m''), (''BBLUE'', esc ''44m''), (''BMAGENTA'', esc ''45m''),
     (''BCYAN'', esc ''46m''), (''BWHITE'', esc ''47m''),
     (''BBRIGHT_BLACK'', esc ''100m''), (''BBRIGHT_RED'', esc ''101m''),
     (''BBRIGHT_GREEN'', esc ''102m''), (''BBRIGHT_YELLOW'', esc ''103m''),
     (''BBRIGHT_BLUE'', esc ''104m''), (''BBRIGHT_MAGENTA'', esc ''105m''),
     (''BBRIGHT_CYAN'', esc ''106m''), (''BBRIGHT_WHITE'', esc ''107m''),
     (''fg256'', builder_source ''(n)'' ''38;5;${n}''),
     (''bg256'', builder_source ''(n)'' ''48;5;${n}''),
     (''fgRGB'', builder_source ''(r, g, b)'' ''38;2;${r};${g};${b}''),
     (''bgRGB'', builder_source ''(r, g, b)'' ''48;2;${r};${g};${b}'')]"

text \<open>A table entry inside a template literal; a missing one renders as \<^verbatim>\<open>undefined\<close>.\<close>

definition interpolate :: "string option \<Rightarrow> string" where
  "interpolate v = (case v of None \<Rightarrow> ''undefined'' | Some t \<Rightarrow> t)"

definition tc :: "string \<Rightarrow> string" where
  "tc name = interpolate (map_of TerminalColors name)"

section \<open>Time formatter (src/utils/time.ts), the part the logger calls\<close>

text \<open>
  What the host gives a log call: the text of \<^verbatim>\<open>new Error().stack\<close> as
  \<^verbatim>\<open>getCallerNameForced\<close> and as \<^verbatim>\<open>getCallerName\<close> see it (it may be undefined), and the outcome
  of \<^verbatim>\<open>Intl.DateTimeFormat(...).formatToParts(now)\<close>: the list of typed parts, or the error the
  formatter raised.
\<close>

record host =
  stackForced :: "string option"
  stackPlain :: "string option"
  formatToParts :: "exn + (string \<times> string) list"

text \<open>
  \<^verbatim>\<open>Time.formatDateToParts(new Date(), undefined, undefined)\<close>: the parts the formatter
  returns are stored by type, a later part of a type replacing an earlier one; the six
  required parts must each be a non-empty string; every error is raised again as
  \<^verbatim>\<open>Failed to format date: ...\<close>. (The date is the current instant, always a valid date, so
  the first check of the source never fires.)
\<close>

definition requiredParts :: "string list" where
  "requiredParts = [''year'', ''month'', ''day'', ''hour'', ''minute'', ''second'']"

definition falsy_part :: "(string \<rightharpoonup> string) \<Rightarrow> string \<Rightarrow> bool" where
  "falsy_part dateParts part = (dateParts part = None \<or> dateParts part = Some [])"

definition formatDateToParts :: "host \<Rightarrow> exn + (string \<rightharpoonup> string)" where
  "formatDateToParts h =
     (case formatToParts h of
        Inl e \<Rightarrow> Inl (Error (''Failed to format date: '' @ error_message e))
      | Inr formattedParts \<Rightarrow>
          (let dateParts = fold (\<lambda>(ty, v) m. m(ty \<mapsto> v)) formattedParts Map.empty in
           (case find (falsy_part dateParts) requiredParts of
              Some part \<Rightarrow>
                Inl (Error (''Failed to format date: '' @ ''Missing date part: '' @ part))
            | None \<Rightarrow> Inr dateParts)))"

text \<open>\<^verbatim>\<open>dateParts.day\<close> and so on inside a template literal.\<close>

definition part :: "(string \<rightharpoonup> string) \<Rightarrow> string \<Rightarrow> string" where
  "part dateParts name = interpolate (dateParts name)"

definition logFormat :: "(string \<rightharpoonup> string) \<Rightarrow> string" where
  "logFormat dateParts =
     part dateParts ''day'' @ ''/'' @ part dateParts ''month'' @ ''/'' @ part dateParts ''year''
     @ '':'' @ part dateParts ''hour'' @ '':'' @ part dateParts ''minute''
     @ '':'' @ part dateParts ''second''"

definition getTimeToLogFormat :: "host \<Rightarrow> exn + string" where
  "getTimeToLogFormat h =
     (case formatDateToParts h of Inl e \<Rightarrow> Inl e | Inr dateParts \<Rightarrow> Inr (logFormat dateParts))"

section \<open>Structured logger (src/terminal/logger.ts)\<close>

text \<open>
  The logger's state is the process-wide flag \<^verbatim>\<open>Logger.showFunctionName\<close>; its effect is one
  call of \<^verbatim>\<open>console.log\<close> or \<^verbatim>\<open>console.info\<close>, both of which write their argument as one
  entry of the standard output stream. The stream is the list of the entries written so far.
\<close>

datatype console_method = ConsoleLog | ConsoleInfo

record process =
  showFunctionName :: bool
  stdout :: "(console_method \<times> string) list"

record LogReturn =
  pfn :: string
  timestamp :: string
  message :: jsval
  level :: string

text \<open>The options of \<^verbatim>\<open>custom\<close>: \<^verbatim>\<open>{ type: string; color?: keyof typeof TerminalColors }\<close>.\<close>

record custom_opt =
  opt_type :: string
  opt_color :: "string option"

text \<open>The first test of the stack loop: frames of the logger itself and of the module loader.\<close>

definition logger_frame :: "string \<Rightarrow> bool" where
  "logger_frame line =
     (js_includes line ''Logger.log'' \<or> js_includes line ''Logger.success''
      \<or> js_includes line ''Logger.error'' \<or> js_includes line ''Logger.warn''
      \<or> js_includes line ''Logger.info'' \<or> js_includes line ''Logger.debug''
      \<or> js_includes line ''Logger.custom'' \<or> js_includes line ''Function.getCallerName''
      \<or> js_includes line ''Function.logWithReturn''
      \<or> js_includes line ''Function.customWithReturn''
      \<or> js_includes line ''at Object.<anonymous>'' \<or> js_includes line ''Module._compile''
      \<or> js_includes line ''at Module.load'' \<or> js_includes line ''transformer'')"

text \<open>
  The two regular expressions of the loop. Each class is followed by a character outside it,
  so the greedy match of every \<^verbatim>\<open>+\<close> is the only one: at a start position the match takes
  \<^verbatim>\<open>at\<close>, the longest run of white space, the word (or \<^verbatim>\<open><anonymous>\<close>), the longest run of
  white space and an opening parenthesis. \<^verbatim>\<open>match\<close> tries the start positions from the left.

  \<open>match_at_word_here s\<close> is the group \<^verbatim>\<open>(\w+)\<close> of \<^verbatim>\<open>/at\s+(\w+)\s+\(/\<close> matched at the start
  of \<open>s\<close>; \<open>match_at_anonymous_here s\<close> is whether \<^verbatim>\<open>/at\s+<anonymous>\s+\(/\<close> matches there.
\<close>

definition match_at_word_here :: "string \<Rightarrow> string option" where
  "match_at_word_here s =
     (if startsWith s ''at'' then
        (let r1 = drop 2 s;
             r2 = dropWhile js_space r1;
             w = takeWhile js_word r2;
             r3 = dropWhile js_word r2;
             r4 = dropWhile js_space r3
         in if takeWhile js_space r1 \<noteq> [] \<and> w \<noteq> [] \<and> takeWhile js_space r3 \<noteq> []
               \<and> startsWith r4 ''(''
            then Some w else None)
      else None)"

fun match_at_word :: "string \<Rightarrow> string option" where
  "match_at_word [] = None"
| "match_at_word (x # xs) =
     (case match_at_word_here (x # xs) of Some w \<Rightarrow> Some w | None \<Rightarrow> match_at_word xs)"

definition match_at_anonymous_here :: "string \<Rightarrow> bool" where
  "match_at_anonymous_here s =
     (startsWith s ''at''
      \<and> (let r1 = drop 2 s;
              r2 = dropWhile js_space r1;
              r3 = drop (length ''<anonymous>'') r2;
              r4 = dropWhile js_space r3
          in takeWhile js_space r1 \<noteq> [] \<and> startsWith r2 ''<anonymous>''
             \<and> takeWhile js_space r3 \<noteq> [] \<and> startsWith r4 ''(''))"

fun match_at_anonymous :: "string \<Rightarrow> bool" where
  "match_at_anonymous [] = False"
| "match_at_anonymous (x # xs) = (match_at_anonymous_here (x # xs) \<or> match_at_anonymous xs)"

text \<open>
  The loop \<^verbatim>\<open>for (let i = 2; i < stackLines.length; i++)\<close> of \<^verbatim>\<open>getCallerName\<close> and
  \<^verbatim>\<open>getCallerNameForced\<close> (the two bodies are the same), on the lines from index 2 on.
\<close>

fun scanStackLines :: "string list \<Rightarrow> string" where
  "scanStackLines [] = []"
| "scanStackLines (line # rest) =
     (if logger_frame line then scanStackLines rest
      else if js_includes line ''at <anonymous>'' \<and> \<not> match_at_anonymous line
        then scanStackLines rest
      else if trim line \<noteq> [] then
        (case match_at_word line of
           Some name \<Rightarrow>
             if name \<noteq> [] \<and> name \<noteq> ''Object'' \<and> name \<noteq> ''Function'' then ''fn: '' @ name
             else if js_includes line ''at <anonymous>'' then ''fn: <anonymous>''
             else scanStackLines rest
         | None \<Rightarrow>
             if js_includes line ''at <anonymous>'' then ''fn: <anonymous>''
             else scanStackLines rest)
      else scanStackLines rest)"

definition scanStack :: "string option \<Rightarrow> string" where
  "scanStack stack =
     (case stack of
        None \<Rightarrow> []
      | Some text \<Rightarrow>
          if text = [] then [] else scanStackLines (drop 2 (js_split CHR 0x0A text)))"

definition getCallerName :: "host \<Rightarrow> process \<Rightarrow> string" where
  "getCallerName h p = (if \<not> showFunctionName p then [] else scanStack (stackPlain h))"

definition getCallerNameForced :: "host \<Rightarrow> string" where
  "getCallerNameForced h = scanStack (stackForced h)"

text \<open>
  One argument of a log call as console text: the stack of an \<^verbatim>\<open>Error\<close> (its message when
  the stack is undefined or empty), compact JSON for every other value whose \<^verbatim>\<open>typeof\<close> is
  \<^verbatim>\<open>"object"\<close> (\<^verbatim>\<open>null\<close>, arrays, objects), \<^verbatim>\<open>String(a)\<close> for the rest.
\<close>

fun typeof_object :: "jsval \<Rightarrow> bool" where
  "typeof_object JNull = True"
| "typeof_object (JArr xs) = True"
| "typeof_object (JObj kvs) = True"
| "typeof_object (JError stack msg) = True"
| "typeof_object v = False"

fun String :: "jsval \<Rightarrow> string" where
  "String JUndefined = ''undefined''"
| "String JNull = ''null''"
| "String (JBool b) = (if b then ''true'' else ''false'')"
| "String (JNum n) = show_int n"
| "String (JBigInt n) = show_int n"
| "String (JStr s) = s"
| "String (JArr xs) = js_join '','' (map (\<lambda>x. if x = JUndefined \<or> x = JNull then [] else String x) xs)"
| "String (JObj kvs) = ''[object Object]''"
| "String (JError stack msg) = (if msg = [] then ''Error'' else ''Error: '' @ msg)"

definition renderArg :: "jsval \<Rightarrow> exn + string" where
  "renderArg a =
     (case a of
        JError stack msg \<Rightarrow>
          Inr (case stack of None \<Rightarrow> msg | Some st \<Rightarrow> if st = [] then msg else st)
      | _ \<Rightarrow>
          if typeof_object a then
            (case JSON_stringify a 0 of
               Inl e \<Rightarrow> Inl e
             | Inr text \<Rightarrow> Inr (interpolate text))
          else Inr (String a))"

text \<open>\<^verbatim>\<open>args.map(...)\<close>: the arguments in order, stopping at the first one that raises.\<close>

fun renderArgs :: "jsval list \<Rightarrow> exn + string list" where
  "renderArgs [] = Inr []"
| "renderArgs (a # as) =
     (case renderArg a of
        Inl e \<Rightarrow> Inl e
      | Inr t \<Rightarrow> (case renderArgs as of Inl e \<Rightarrow> Inl e | Inr ts \<Rightarrow> Inr (t # ts)))"

text \<open>The \<^verbatim>\<open>processedMessage\<close> of both \<^verbatim>\<open>...WithReturn\<close> methods.\<close>

definition processedMessage :: "jsval list \<Rightarrow> jsval" where
  "processedMessage args =
     (if length args = 1 then hd args
      else if length args > 1 then JArr args
      else JStr [])"

definition colorMap :: "(string \<times> string) list" where
  "colorMap =
    [(''DEBUG'', tc ''MAGENTA''), (''WARN'', tc ''BYELLOW''), (''ERROR'', tc ''RED''),
     (''INFO'', tc ''BLUE''), (''SUCCESS'', tc ''GREEN'')]"

definition logMethod :: "string \<Rightarrow> console_method" where
  "logMethod type =
     (if type = ''ERROR'' \<or> type = ''WARN'' then ConsoleLog
      else if type = ''INFO'' then ConsoleInfo else ConsoleLog)"

definition displayName :: "host \<Rightarrow> process \<Rightarrow> bool \<Rightarrow> string \<Rightarrow> string" where
  "displayName h p withFunctionName detectedFunctionName =
     (if withFunctionName then detectedFunctionName
      else if showFunctionName p then getCallerName h p else [])"

text \<open>\<^verbatim>\<open>args.map(...).join(" ")\<close>, the \<^verbatim>\<open>consoleMessage\<close> of both methods.\<close>

definition consoleMessage :: "jsval list \<Rightarrow> exn + string" where
  "consoleMessage args =
     (case renderArgs args of Inl e \<Rightarrow> Inl e | Inr pieces \<Rightarrow> Inr (js_join '' '' pieces))"

text \<open>
  The template literal both methods print:
  \<^verbatim>\<open>${_dim}[${currentTime}]${_reset} ${color}[${type}]${_reset} ${displayFunctionName}: ${consoleMessage}\<close>.
\<close>

definition consoleLine :: "string \<Rightarrow> string \<Rightarrow> string \<Rightarrow> string \<Rightarrow> string \<Rightarrow> string" where
  "consoleLine currentTime color type displayFunctionName msg =
     tc ''_dim'' @ ''['' @ currentTime @ '']'' @ tc ''_reset'' @ '' ''
     @ color @ ''['' @ type @ '']'' @ tc ''_reset'' @ '' ''
     @ displayFunctionName @ '': '' @ msg"

definition logWithReturn ::
  "host \<Rightarrow> process \<Rightarrow> string \<Rightarrow> bool \<Rightarrow> jsval list \<Rightarrow> exn + process \<times> LogReturn" where
  "logWithReturn h p type withFunctionName args =
     (let color = (case map_of colorMap type of
                     None \<Rightarrow> tc ''_reset''
                   | Some c \<Rightarrow> if c = [] then tc ''_reset'' else c)
      in case getTimeToLogFormat h of
           Inl e \<Rightarrow> Inl e
         | Inr currentTime \<Rightarrow>
            (let detectedFunctionName = getCallerNameForced h;
                 displayFunctionName = displayName h p withFunctionName detectedFunctionName
             in case consoleMessage args of
                  Inl e \<Rightarrow> Inl e
                | Inr msg \<Rightarrow>
                    Inr (p\<lparr>stdout := stdout p
                             @ [(logMethod type,
                                 consoleLine currentTime color type displayFunctionName msg)]\<rparr>,
                         \<lparr>pfn = js_replace detectedFunctionName ''fn: '' [],
                          timestamp = currentTime,
                          message = processedMessage args,
                          level = type\<rparr>)))"

definition customWithReturn ::
  "host \<Rightarrow> process \<Rightarrow> custom_opt \<Rightarrow> bool \<Rightarrow> jsval list \<Rightarrow> exn + process \<times> LogReturn" where
  "customWithReturn h p opt withFunctionName args =
     (let logColor = (case opt_color opt of
                        None \<Rightarrow> ''CYAN''
                      | Some c \<Rightarrow> if c = [] then ''CYAN'' else c)
      in case getTimeToLogFormat h of
           Inl e \<Rightarrow> Inl e
         | Inr currentTime \<Rightarrow>
            (let detectedFunctionName = getCallerNameForced h;
                 displayFunctionName = displayName h p withFunctionName detectedFunctionName
             in case consoleMessage args of
                  Inl e \<Rightarrow> Inl e
                | Inr msg \<Rightarrow>
                    Inr (p\<lparr>stdout := stdout p
                             @ [(ConsoleLog,
                                 consoleLine currentTime (tc logColor) (opt_type opt)
                                   displayFunctionName msg)]\<rparr>,
                         \<lparr>pfn = js_replace detectedFunctionName ''fn: '' [],
                          timestamp = currentTime,
                          message = processedMessage args,
                          level = opt_type opt\<rparr>)))"

text \<open>
  The public methods. A level is one of the five level tags, or \<open>Custom opt\<close> for
  \<^verbatim>\<open>custom(opt, ...)\<close>; \<open>plain\<close> is \<^verbatim>\<open>Logger.success\<close> ... \<^verbatim>\<open>Logger.custom\<close>, which pass the current
  flag, and \<open>forced\<close> is \<^verbatim>\<open>Logger.pfn.success\<close> ... \<^verbatim>\<open>Logger.pfn.custom\<close>, which pass \<^verbatim>\<open>true\<close>.
\<close>

datatype log_level = SUCCESS | ERROR | WARN | INFO | DEBUG | Custom custom_opt

fun level_tag :: "log_level \<Rightarrow> string" where
  "level_tag SUCCESS = ''SUCCESS''"
| "level_tag ERROR = ''ERROR''"
| "level_tag WARN = ''WARN''"
| "level_tag INFO = ''INFO''"
| "level_tag DEBUG = ''DEBUG''"
| "level_tag (Custom opt) = opt_type opt"

fun dispatch ::
  "host \<Rightarrow> process \<Rightarrow> log_level \<Rightarrow> bool \<Rightarrow> jsval list \<Rightarrow> exn + process \<times> LogReturn" where
  "dispatch h p (Custom opt) withFunctionName args = customWithReturn h p opt withFunctionName args"
| "dispatch h p lv withFunctionName args = logWithReturn h p (level_tag lv) withFunctionName args"

definition plain :: "host \<Rightarrow> process \<Rightarrow> log_level \<Rightarrow> jsval list \<Rightarrow> exn + process \<times> LogReturn" where
  "plain h p lv args = dispatch h p lv (showFunctionName p) args"

definition forced :: "host \<Rightarrow> process \<Rightarrow> log_level \<Rightarrow> jsval list \<Rightarrow> exn + process \<times> LogReturn" where
  "forced h p lv args = dispatch h p lv True args"


text \<open>
  The colour and the console method of a level, as a table: DEBUG magenta, WARN yellow
  background, ERROR red, INFO blue, SUCCESS green; a custom call names its colour, cyan when
  it names none. Only INFO goes through \<^verbatim>\<open>console.info\<close>.
\<close>

fun level_color :: "log_level \<Rightarrow> string" where
  "level_color SUCCESS = tc ''GREEN''"
| "level_color ERROR = tc ''RED''"
| "level_color WARN = tc ''BYELLOW''"
| "level_color INFO = tc ''BLUE''"
| "level_color DEBUG = tc ''MAGENTA''"
| "level_color (Custom opt) =
     (case opt_color opt of
        None \<Rightarrow> tc ''CYAN''
      | Some c \<Rightarrow> if c = [] then tc ''CYAN'' else tc c)"

fun level_method :: "log_level \<Rightarrow> console_method" where
  "level_method INFO = ConsoleInfo"
| "level_method lv = ConsoleLog"

text \<open>
  A call comes from a named function context when some stack line from index 2 on is a
  frame the loop accepts with a name: not a frame of the logger or the loader, not a bare
  \<^verbatim>\<open>at <anonymous>\<close>, and of the shape \<^verbatim>\<open>at name (\<close> with a name other than \<^verbatim>\<open>Object\<close> and
  \<^verbatim>\<open>Function\<close>.
\<close>

definition named_frame :: "string \<Rightarrow> bool" where
  "named_frame line =
     (\<not> logger_frame line
      \<and> \<not> (js_includes line ''at <anonymous>'' \<and> \<not> match_at_anonymous line)
      \<and> trim line \<noteq> []
      \<and> (case match_at_word line of
            Some name \<Rightarrow> name \<noteq> ''Object'' \<and> name \<noteq> ''Function''
          | None \<Rightarrow> False))"

definition named_context :: "string option \<Rightarrow> bool" where
  "named_context stack =
     (case stack of
        None \<Rightarrow> False
      | Some text \<Rightarrow> text \<noteq> [] \<and> list_ex named_frame (drop 2 (js_split CHR 0x0A text)))"

text \<open>A value \<^verbatim>\<open>JSON.stringify\<close> does not raise on: no BigInt anywhere inside it.\<close>

fun serializable :: "jsval \<Rightarrow> bool"
  and serializable_list :: "jsval list \<Rightarrow> bool"
  and serializable_members :: "(string \<times> jsval) list \<Rightarrow> bool"
where
  "serializable (JBigInt n) = False"
| "serializable (JArr xs) = serializable_list xs"
| "serializable (JObj kvs) = serializable_members kvs"
| "serializable JUndefined = True"
| "serializable JNull = True"
| "serializable (JBool b) = True"
| "serializable (JNum n) = True"
| "serializable (JStr s) = True"
| "serializable (JError stack msg) = True"
| "serializable_list [] = True"
| "serializable_list (x # xs) = (serializable x \<and> serializable_list xs)"
| "serializable_members [] = True"
| "serializable_members ((k, v) # kvs) = (serializable v \<and> serializable_members kvs)"

text \<open>
  An argument the logger can turn into console text: every value but an object or array
  (\<^verbatim>\<open>typeof\<close> \<^verbatim>\<open>"object"\<close>) that cannot be serialized.
\<close>

definition renders :: "jsval \<Rightarrow> bool" where
  "renders a = (typeof_object a \<longrightarrow> serializable a)"

text \<open>An example host and process: a call of \<^verbatim>\<open>Logger.pfn.info\<close> from a function \<^verbatim>\<open>main\<close>.\<close>

definition example_stack :: string where
  "example_stack =
     ''Error'' @ [CHR 0x0A]
     @ ''    at Logger.getCallerNameForced (/app/dist/index.js:715:17)'' @ [CHR 0x0A]
     @ ''    at Logger.logWithReturn (/app/dist/index.js:771:39)'' @ [CHR 0x0A]
     @ ''    at Object.info (/app/dist/index.js:681:30)'' @ [CHR 0x0A]
     @ ''    at main (/app/src/index.js:5:16)'' @ [CHR 0x0A]
     @ ''    at Object.<anonymous> (/app/src/index.js:9:1)''"

definition example_host :: host where
  "example_host =
     \<lparr>stackForced = Some example_stack,
      stackPlain = Some example_stack,
      formatToParts =
        Inr [(''month'', ''11''), (''literal'', ''/''), (''day'', ''02''), (''literal'', ''/''),
             (''year'', ''2026''), (''literal'', '', ''), (''hour'', ''09''),
             (''literal'', '':''), (''minute'', ''05''), (''literal'', '':''),
             (''second'', ''07'')]\<rparr>"

definition quiet :: process where
  "quiet = \<lparr>showFunctionName = False, stdout = []\<rparr>"

definition verbose :: process where
  "verbose = \<lparr>showFunctionName = True, stdout = []\<rparr>"

definition lower_or_digit :: "char set" where
  "lower_or_digit = set ''abcdefghijklmnopqrstuvwxyz0123456789''"

section \<open>Properties of the MIME resolver\<close>

lemma js_split_nonempty: "js_split c s \<noteq> []"
  by (induction s) (auto split: list.splits)

lemma js_split_no_sep: "c \<notin> set s \<Longrightarrow> js_split c s = [s]"
  by (induction s) auto

lemma js_split_append: "js_split c (b @ c # r) = js_split c b @ js_split c r"
proof (induction b)
  case Nil
  then show ?case by simp
next
  case (Cons x b)
  then show ?case
    using js_split_nonempty [of c b] by (cases "js_split c b") auto
qed

lemma last_js_split_append:
  "c \<notin> set e \<Longrightarrow> last (js_split c (b @ c # e)) = e"
  by (simp add: js_split_append js_split_no_sep)

lemma file_name_shapes:
  "CHR ''.'' \<notin> set f \<or> (\<exists>b e. f = b @ CHR ''.'' # e \<and> CHR ''.'' \<notin> set e)"
  using split_list_last [of "CHR ''.''" f] by blast

lemma extension_of_name:
  "CHR ''.'' \<notin> set e \<Longrightarrow> pop (js_split CHR ''.'' (b @ CHR ''.'' # e)) = Some e"
  "CHR ''.'' \<notin> set e \<Longrightarrow> pop (js_split CHR ''.'' e) = Some e"
  by (simp_all add: pop_def js_split_nonempty last_js_split_append js_split_no_sep)

lemma mime_switch_lookup:
  "mime_switch (Some e) =
     (case map_of mime_table e of Some m \<Rightarrow> m | None \<Rightarrow> ''application/octet-stream'')"
  unfolding mime_switch_def mime_table_def by simp

lemma mime_table_keys: "\<forall>k \<in> set (map fst mime_table). set k \<subseteq> lower_or_digit"
  unfolding mime_table_def lower_or_digit_def by simp

lemma mime_switch_other:
  assumes "\<not> set e \<subseteq> lower_or_digit"
  shows "mime_switch (Some e) = ''application/octet-stream''"
proof (cases "map_of mime_table e")
  case None
  then show ?thesis by (simp add: mime_switch_lookup)
next
  case (Some m)
  then have "e \<in> set (map fst mime_table)"
    by (metis map_of_eq_None_iff option.distinct(1) set_map)
  with mime_table_keys assms show ?thesis by blast
qed

text \<open>
  C8, as the code has it. Every file name either has no dot or ends in a dot followed by
  text with no dot (\<open>file_name_shapes\<close>). \<^const>\<open>mimeType\<close> takes the text after the last dot of
  the file name (the whole name when it has no dot) and looks it up as it stands, with no
  change of case:
  the result is the table's constant when that text is a key of the table and
  \<^verbatim>\<open>application/octet-stream\<close> otherwise. Every key is made of lower-case letters and digits,
  so an extension with any other character, an upper-case letter among them, resolves to
  \<^verbatim>\<open>application/octet-stream\<close>.
\<close>

theorem mimeType_exact_lookup:
  "(CHR ''.'' \<notin> set e \<longrightarrow>
      mimeType (b @ CHR ''.'' # e) =
        (case map_of mime_table e of Some m \<Rightarrow> m | None \<Rightarrow> ''application/octet-stream'')
      \<and> mimeType e =
        (case map_of mime_table e of Some m \<Rightarrow> m | None \<Rightarrow> ''application/octet-stream'')
      \<and> (\<not> set e \<subseteq> lower_or_digit \<longrightarrow>
            mimeType (b @ CHR ''.'' # e) = ''application/octet-stream''))"
  by (simp add: mimeType_def extension_of_name mime_switch_lookup [symmetric] mime_switch_other)

theorem mimeType_exact_lookup_witness:
  "CHR ''.'' \<notin> set ''JPG'' \<and> \<not> set ''JPG'' \<subseteq> lower_or_digit
   \<and> mimeType (''Photo'' @ CHR ''.'' # ''JPG'') = ''application/octet-stream''
   \<and> CHR ''.'' \<notin> set ''gz'' \<and> map_of mime_table ''gz'' = None
   \<and> mimeType (''a.tar'' @ CHR ''.'' # ''gz'') = ''application/octet-stream''
   \<and> CHR ''.'' \<notin> set ''png'' \<and> map_of mime_table ''png'' = Some ''image/png''
   \<and> mimeType (''logo.v2'' @ CHR ''.'' # ''png'') = ''image/png''"
proof -
  have 1: "CHR ''.'' \<notin> set ''JPG''" "\<not> set ''JPG'' \<subseteq> lower_or_digit"
    by (simp_all add: lower_or_digit_def)
  have 2: "CHR ''.'' \<notin> set ''gz''" "map_of mime_table ''gz'' = None"
    by (simp_all add: mime_table_def)
  have 3: "CHR ''.'' \<notin> set ''png''" "map_of mime_table ''png'' = Some ''image/png''"
    by (simp_all add: mime_table_def)
  from mimeType_exact_lookup [of "''JPG''" "''Photo''"] 1
  have a: "mimeType (''Photo'' @ CHR ''.'' # ''JPG'') = ''application/octet-stream''" by blast
  from mimeType_exact_lookup [of "''gz''" "''a.tar''"] 2
  have b: "mimeType (''a.tar'' @ CHR ''.'' # ''gz'') = ''application/octet-stream''" by simp
  from mimeType_exact_lookup [of "''png''" "''logo.v2''"] 3
  have c: "mimeType (''logo.v2'' @ CHR ''.'' # ''png'') = ''image/png''" by simp
  from 1 2 3 a b c show ?thesis by blast
qed

text \<open>
  C8 as stated asks for a lookup that ignores the case of the extension. The source compares
  the extension as written: \<^verbatim>\<open>photo.jpg\<close> is an image and \<^verbatim>\<open>Photo.JPG\<close> is not.
\<close>

theorem mimeType_case_sensitive_counterexample:
  "mimeType ''photo.jpg'' = ''image/jpeg'' \<and> mimeType ''Photo.JPG'' = ''application/octet-stream''"
  by (simp add: mimeType_def pop_def mime_switch_def)

section \<open>Properties of the logger\<close>

subsection \<open>The stack scan\<close>

lemma match_at_word_here_nonempty: "match_at_word_here s = Some w \<Longrightarrow> w \<noteq> []"
  by (auto simp: match_at_word_here_def Let_def split: if_splits)

lemma match_at_word_nonempty: "match_at_word s = Some w \<Longrightarrow> w \<noteq> []"
  by (induction s) (auto split: option.splits dest: match_at_word_here_nonempty)

lemma scanStackLines_shape:
  "scanStackLines ls = [] \<or> (\<exists>n. n \<noteq> [] \<and> scanStackLines ls = ''fn: '' @ n)"
  by (induction ls) (auto split: option.splits)

lemma js_replace_fn_prefix: "js_replace (''fn: '' @ n) ''fn: '' [] = n"
  by (simp add: startsWith_def)

lemma scanStackLines_named: "list_ex named_frame ls \<Longrightarrow> scanStackLines ls \<noteq> []"
  by (induction ls) (auto simp: named_frame_def split: option.splits dest: match_at_word_nonempty)

lemma scanStack_named: "named_context stack \<Longrightarrow> scanStack stack \<noteq> []"
  by (auto simp: named_context_def scanStack_def scanStackLines_named split: option.splits)

lemma scanStack_shape:
  "scanStack stack = [] \<or> (\<exists>n. n \<noteq> [] \<and> scanStack stack = ''fn: '' @ n)"
  using scanStackLines_shape by (auto simp: scanStack_def split: option.splits)

lemma pfn_of_named: "named_context stack \<Longrightarrow> js_replace (scanStack stack) ''fn: '' [] \<noteq> []"
  using scanStack_shape [of stack] scanStack_named [of stack] js_replace_fn_prefix
  by (metis)

subsection \<open>One equation for the twelve methods\<close>

lemma level_color_nonempty: "tc ''GREEN'' \<noteq> [] \<and> tc ''RED'' \<noteq> [] \<and> tc ''BYELLOW'' \<noteq> [] \<and> tc ''BLUE'' \<noteq> [] \<and> tc ''MAGENTA'' \<noteq> []"
  by (simp add: tc_def TerminalColors_def interpolate_def esc_def)

lemma dispatch_eq:
  "dispatch h p lv w args =
     (case getTimeToLogFormat h of
        Inl e \<Rightarrow> Inl e
      | Inr t \<Rightarrow>
         (case consoleMessage args of
            Inl e \<Rightarrow> Inl e
          | Inr msg \<Rightarrow>
              Inr (p\<lparr>stdout := stdout p
                       @ [(level_method lv,
                           consoleLine t (level_color lv) (level_tag lv)
                             (displayName h p w (getCallerNameForced h)) msg)]\<rparr>,
                   \<lparr>pfn = js_replace (getCallerNameForced h) ''fn: '' [],
                    timestamp = t,
                    message = processedMessage args,
                    level = level_tag lv\<rparr>)))"
  using level_color_nonempty
  by (cases lv)
     (simp_all add: logWithReturn_def customWithReturn_def colorMap_def logMethod_def Let_def
        split: sum.splits option.splits)

lemma serialize_total:
  "serializable v \<Longrightarrow> \<exists>t. SerializeJSONProperty gap ind v = Inr t"
  "serializable_list xs \<Longrightarrow> \<exists>ts. SerializeJSONElements gap ind xs = Inr ts"
  "serializable_members kvs \<Longrightarrow> \<exists>ts. SerializeJSONMembers gap ind kvs = Inr ts"
proof (induction gap ind v and gap ind xs and gap ind kvs
    rule: SerializeJSONProperty_SerializeJSONElements_SerializeJSONMembers.induct)
qed (auto split: sum.splits)

lemma serialize_raises:
  "\<not> serializable v \<Longrightarrow> \<exists>e. SerializeJSONProperty gap ind v = Inl e"
  "\<not> serializable_list xs \<Longrightarrow> \<exists>e. SerializeJSONElements gap ind xs = Inl e"
  "\<not> serializable_members kvs \<Longrightarrow> \<exists>e. SerializeJSONMembers gap ind kvs = Inl e"
proof (induction gap ind v and gap ind xs and gap ind kvs
    rule: SerializeJSONProperty_SerializeJSONElements_SerializeJSONMembers.induct)
qed (auto split: sum.splits)

lemma serialize_either:
  "(\<exists>t. SerializeJSONProperty gap ind v = Inr t) \<longleftrightarrow> serializable v"
  using serialize_total(1) [of v gap ind] serialize_raises(1) [of v gap ind]
  by (cases "serializable v") auto

lemma renderArg_iff: "(\<exists>t. renderArg a = Inr t) \<longleftrightarrow> renders a"
  using serialize_either [of "[]" "[]" a]
  by (cases a) (auto simp: renderArg_def renders_def JSON_stringify_def split: sum.splits)

lemma renderArgs_iff: "(\<exists>ts. renderArgs as = Inr ts) \<longleftrightarrow> (\<forall>a \<in> set as. renders a)"
proof (induction as)
  case Nil
  then show ?case by simp
next
  case (Cons a as)
  then show ?case
    using renderArg_iff [of a] by (auto split: sum.splits)
qed

lemma consoleMessage_iff:
  "(\<exists>msg. consoleMessage as = Inr msg) \<longleftrightarrow> (\<forall>a \<in> set as. renders a)"
  using renderArgs_iff [of as] by (auto simp: consoleMessage_def split: sum.splits)

lemma processedMessage_cases:
  "processedMessage args = (case args of [] \<Rightarrow> JStr [] | [a] \<Rightarrow> a | a # b # cs \<Rightarrow> JArr args)"
  by (auto simp: processedMessage_def split: list.splits)

lemma dispatch_total:
  assumes "getTimeToLogFormat h = Inr t" and "\<forall>a \<in> set args. renders a"
  shows "\<exists>line r. dispatch h p lv w args
           = Inr (p\<lparr>stdout := stdout p @ [(level_method lv, line)]\<rparr>, r)"
proof -
  from assms(2) obtain msg where "consoleMessage args = Inr msg"
    using consoleMessage_iff [of args] by auto
  with assms(1) show ?thesis by (auto simp: dispatch_eq)
qed

lemma dispatch_raises:
  assumes "\<not> ((\<exists>t. getTimeToLogFormat h = Inr t) \<and> (\<forall>a \<in> set args. renders a))"
  shows "\<exists>e. dispatch h p lv w args = Inl e"
proof (cases "getTimeToLogFormat h")
  case (Inl e)
  then show ?thesis by (simp add: dispatch_eq)
next
  case (Inr t)
  with assms have "\<not> (\<exists>msg. consoleMessage args = Inr msg)"
    using consoleMessage_iff [of args] by auto
  then obtain e where "consoleMessage args = Inl e" by (cases "consoleMessage args") auto
  with Inr show ?thesis by (simp add: dispatch_eq)
qed

subsection \<open>An example call\<close>

lemma example_time: "getTimeToLogFormat example_host = Inr ''02/11/2026:09:05:07''"
  by code_simp


lemma example_named: "named_context (stackForced example_host)"
  by code_simp

lemma example_info_hello:
  "plain example_host quiet INFO [JStr ''hello''] =
     Inr (quiet\<lparr>stdout := [(ConsoleInfo,
             consoleLine ''02/11/2026:09:05:07'' (tc ''BLUE'') ''INFO'' [] ''hello'')]\<rparr>,
          \<lparr>pfn = ''main'', timestamp = ''02/11/2026:09:05:07'',
           message = JStr ''hello'', level = ''INFO''\<rparr>)"
  by code_simp


lemma example_forced_verbose:
  "forced example_host verbose INFO [JStr ''hello''] =
     Inr (verbose\<lparr>stdout := [(ConsoleInfo,
             consoleLine ''02/11/2026:09:05:07'' (tc ''BLUE'') ''INFO'' ''fn: main'' ''hello'')]\<rparr>,
          \<lparr>pfn = ''main'', timestamp = ''02/11/2026:09:05:07'',
           message = JStr ''hello'', level = ''INFO''\<rparr>)"
  by code_simp

subsection \<open>The returned record\<close>

text \<open>
  C5. For every level method, plain or forced, the \<^verbatim>\<open>message\<close> field of the returned record
  keeps the shape of the arguments: the one argument itself when there is exactly one, the
  array of the arguments in order when there are more, the empty string when there are none;
  the \<^verbatim>\<open>level\<close> field is the level tag (\<^verbatim>\<open>"INFO"\<close> for \<^verbatim>\<open>info\<close>, the caller's \<^verbatim>\<open>type\<close> for
  \<^verbatim>\<open>custom\<close>).
\<close>

theorem logger_message_shape:
  assumes "plain h p lv args = Inr (p', r) \<or> forced h p lv args = Inr (p', r)"
  shows "message r = (case args of [] \<Rightarrow> JStr [] | [a] \<Rightarrow> a | a # b # cs \<Rightarrow> JArr args)
         \<and> level r = level_tag lv"
proof -
  from assms obtain w where "dispatch h p lv w args = Inr (p', r)"
    by (auto simp: plain_def forced_def)
  then have "message r = processedMessage args \<and> level r = level_tag lv"
    by (auto simp: dispatch_eq split: sum.splits)
  then show ?thesis by (simp add: processedMessage_cases)
qed

theorem logger_message_shape_witness:
  "(\<exists>p' r. plain example_host quiet INFO [JStr ''hello''] = Inr (p', r)
      \<and> message r = JStr ''hello'' \<and> level r = ''INFO'')"
proof -
  let ?p = "quiet\<lparr>stdout := [(ConsoleInfo,
             consoleLine ''02/11/2026:09:05:07'' (tc ''BLUE'') ''INFO'' [] ''hello'')]\<rparr>"
  let ?r = "\<lparr>pfn = ''main'', timestamp = ''02/11/2026:09:05:07'',
           message = JStr ''hello'', level = ''INFO''\<rparr>"
  have eq: "plain example_host quiet INFO [JStr ''hello''] = Inr (?p, ?r)"
    by (rule example_info_hello)
  from logger_message_shape [OF disjI1, OF eq] eq show ?thesis by simp
qed

text \<open>
  C10. For every call, plain or forced and whatever the flag, the \<^verbatim>\<open>pfn\<close> field of the
  returned record is the caller name that the forced stack scan detects, with the prefix
  \<^verbatim>\<open>fn: \<close> removed: empty when the scan finds nothing, the bare name otherwise, and so
  non-empty whenever the stack has a usable named frame. The flag and the choice of plain
  or forced never change the returned record: any two calls of one level with the same
  arguments on the same host return the same record.
\<close>

theorem pfn_field_always_detected:
  assumes "plain h p lv args = Inr (p', r) \<or> forced h p lv args = Inr (p', r)"
  shows "pfn r = js_replace (getCallerNameForced h) ''fn: '' []
         \<and> (getCallerNameForced h = [] \<and> pfn r = []
             \<or> (\<exists>n. n \<noteq> [] \<and> getCallerNameForced h = ''fn: '' @ n \<and> pfn r = n))
         \<and> (named_context (stackForced h) \<longrightarrow> pfn r \<noteq> [])
         \<and> (\<forall>q q' s. plain h q lv args = Inr (q', s) \<or> forced h q lv args = Inr (q', s)
               \<longrightarrow> s = r)"
proof -
  from assms obtain w where d: "dispatch h p lv w args = Inr (p', r)"
    by (auto simp: plain_def forced_def)
  then have pfn: "pfn r = js_replace (getCallerNameForced h) ''fn: '' []"
    by (auto simp: dispatch_eq split: sum.splits)
  have shape: "getCallerNameForced h = [] \<and> pfn r = []
             \<or> (\<exists>n. n \<noteq> [] \<and> getCallerNameForced h = ''fn: '' @ n \<and> pfn r = n)"
  proof -
    have "js_replace [] ''fn: '' [] = []" by simp
    then show ?thesis
      using scanStack_shape [of "stackForced h"] js_replace_fn_prefix
      unfolding pfn getCallerNameForced_def by metis
  qed
  have named: "named_context (stackForced h) \<longrightarrow> pfn r \<noteq> []"
    using pfn_of_named by (simp add: pfn getCallerNameForced_def)
  have same: "s = r" if "plain h q lv args = Inr (q', s) \<or> forced h q lv args = Inr (q', s)"
    for q q' s
  proof -
    from that obtain w' where "dispatch h q lv w' args = Inr (q', s)"
      by (auto simp: plain_def forced_def)
    with d show ?thesis by (auto simp: dispatch_eq split: sum.splits)
  qed
  from pfn shape named same show ?thesis by blast
qed

theorem pfn_field_always_detected_witness:
  "\<exists>p' r. plain example_host quiet INFO [JStr ''hello''] = Inr (p', r) \<and> pfn r = ''main''
     \<and> named_context (stackForced example_host)
     \<and> (\<exists>q'. forced example_host verbose INFO [JStr ''hello''] = Inr (q', r))"
proof -
  let ?r = "\<lparr>pfn = ''main'', timestamp = ''02/11/2026:09:05:07'',
           message = JStr ''hello'', level = ''INFO''\<rparr>"
  note T = pfn_field_always_detected [OF disjI1, OF example_info_hello]
  obtain q' s where f: "forced example_host verbose INFO [JStr ''hello''] = Inr (q', s)"
    using example_forced_verbose by blast
  from T have "\<forall>q q' s. plain example_host q INFO [JStr ''hello''] = Inr (q', s)
      \<or> forced example_host q INFO [JStr ''hello''] = Inr (q', s) \<longrightarrow> s = ?r"
    by blast
  with f have "s = ?r" by blast
  with f have "\<exists>q'. forced example_host verbose INFO [JStr ''hello''] = Inr (q', ?r)" by blast
  moreover have "pfn ?r = ''main''" by simp
  ultimately show ?thesis using example_info_hello example_named by blast
qed

subsection \<open>The console line\<close>



subsection \<open>Completion\<close>

text \<open>
  C7, as the code has it. Every level method, plain or forced, whatever the flag, the
  arguments (\<^verbatim>\<open>Error\<close> objects, plain objects, none at all) and the colour name of a custom
  call, completes normally, appends exactly one entry to the standard output stream, leaves
  the flag as it is and returns a record, provided that the host's formatter yields the
  timestamp and that every object or array among the arguments can be serialized (holds no
  BigInt). Otherwise the call raises.
\<close>

theorem logger_completes_when_serializable:
  "((\<exists>t. getTimeToLogFormat h = Inr t) \<and> (\<forall>a \<in> set args. renders a) \<longrightarrow>
      (\<exists>line r. plain h p lv args = Inr (p\<lparr>stdout := stdout p @ [(level_method lv, line)]\<rparr>, r))
      \<and> (\<exists>line r. forced h p lv args = Inr (p\<lparr>stdout := stdout p @ [(level_method lv, line)]\<rparr>, r)))
   \<and> (\<not> ((\<exists>t. getTimeToLogFormat h = Inr t) \<and> (\<forall>a \<in> set args. renders a)) \<longrightarrow>
      (\<exists>e. plain h p lv args = Inl e) \<and> (\<exists>e. forced h p lv args = Inl e))"
proof (intro conjI impI)
  assume a: "(\<exists>t. getTimeToLogFormat h = Inr t) \<and> (\<forall>a \<in> set args. renders a)"
  then obtain t where t: "getTimeToLogFormat h = Inr t" by blast
  from a dispatch_total [OF t, of args p lv]
  show "\<exists>line r. plain h p lv args = Inr (p\<lparr>stdout := stdout p @ [(level_method lv, line)]\<rparr>, r)"
    and "\<exists>line r. forced h p lv args = Inr (p\<lparr>stdout := stdout p @ [(level_method lv, line)]\<rparr>, r)"
    unfolding plain_def forced_def by blast+
next
  assume "\<not> ((\<exists>t. getTimeToLogFormat h = Inr t) \<and> (\<forall>a \<in> set args. renders a))"
  from dispatch_raises [OF this, of p lv]
  show "\<exists>e. plain h p lv args = Inl e" and "\<exists>e. forced h p lv args = Inl e"
    unfolding plain_def forced_def by blast+
qed

theorem logger_completes_when_serializable_witness:
  "(\<exists>t. getTimeToLogFormat example_host = Inr t)
   \<and> renders (JError (Some ''Error: boom'') ''boom'') \<and> renders (JObj [(''a'', JNum 1)])
   \<and> renders (JBigInt 1)
   \<and> (\<exists>line r. plain example_host verbose (Custom \<lparr>opt_type = ''NOTE'', opt_color = Some ''PINK''\<rparr>)
          [JError (Some ''Error: boom'') ''boom'', JObj [(''a'', JNum 1)], JBigInt 1]
        = Inr (verbose\<lparr>stdout := stdout verbose @ [(ConsoleLog, line)]\<rparr>, r))
   \<and> \<not> renders (JArr [JBigInt 1])
   \<and> (\<exists>e. forced example_host verbose DEBUG [JStr ''n'', JArr [JBigInt 1]] = Inl e)"
proof -
  have 1: "\<exists>t. getTimeToLogFormat example_host = Inr t" using example_time by simp
  have 2: "renders (JError (Some ''Error: boom'') ''boom'')" "renders (JObj [(''a'', JNum 1)])"
    "renders (JBigInt 1)" "\<not> renders (JArr [JBigInt 1])" "renders (JStr ''n'')"
    by (simp_all add: renders_def)
  from logger_completes_when_serializable [of example_host
      "[JError (Some ''Error: boom'') ''boom'', JObj [(''a'', JNum 1)], JBigInt 1]" verbose
      "Custom \<lparr>opt_type = ''NOTE'', opt_color = Some ''PINK''\<rparr>"] 1 2
  have a: "\<exists>line r. plain example_host verbose (Custom \<lparr>opt_type = ''NOTE'', opt_color = Some ''PINK''\<rparr>)
          [JError (Some ''Error: boom'') ''boom'', JObj [(''a'', JNum 1)], JBigInt 1]
        = Inr (verbose\<lparr>stdout := stdout verbose @ [(ConsoleLog, line)]\<rparr>, r)"
    by simp
  from logger_completes_when_serializable [of example_host "[JStr ''n'', JArr [JBigInt 1]]"
      verbose DEBUG] 2
  have b: "\<exists>e. forced example_host verbose DEBUG [JStr ''n'', JArr [JBigInt 1]] = Inl e"
    by simp
  from 1 2 a b show ?thesis by blast
qed

text \<open>
  C7 as stated promises that no call ever raises. \<^verbatim>\<open>JSON.stringify\<close> raises a TypeError on a
  BigInt, the logger calls it on every object argument outside any \<^verbatim>\<open>try\<close>, and so
  \<^verbatim>\<open>Logger.info({ n: 1n })\<close> raises, plain or forced, before anything is written.
\<close>

theorem logger_raises_counterexample:
  "plain example_host quiet INFO [JObj [(''n'', JBigInt 1)]]
     = Inl (TypeError ''Do not know how to serialize a BigInt'')
   \<and> forced example_host quiet INFO [JObj [(''n'', JBigInt 1)]]
     = Inl (TypeError ''Do not know how to serialize a BigInt'')"
  by code_simp

section \<open>Properties of the JSON text\<close>

subsection \<open>Numbers\<close>

lemma below_ten: "(k::nat) < 10 \<Longrightarrow> k = 0 \<or> k = 1 \<or> k = 2 \<or> k = 3 \<or> k = 4 \<or> k = 5 \<or> k = 6 \<or> k = 7 \<or> k = 8 \<or> k = 9"
  by arith

lemma below_sixteen: "(k::nat) < 16 \<Longrightarrow> k = 0 \<or> k = 1 \<or> k = 2 \<or> k = 3 \<or> k = 4 \<or> k = 5 \<or> k = 6 \<or> k = 7 \<or> k = 8 \<or> k = 9 \<or> k = 10 \<or> k = 11 \<or> k = 12 \<or> k = 13 \<or> k = 14 \<or> k = 15"
  by arith

lemma is_digit_digit_char: "is_digit (digit_char n)"
proof -
  have "n mod 10 < 10" by simp
  from below_ten [OF this] show ?thesis
    unfolding digit_char_def is_digit_def by (elim disjE) simp_all
qed

lemma digit_val_digit_char: "digit_val (digit_char n) = n mod 10"
proof -
  have "n mod 10 < 10" by simp
  from below_ten [OF this] show ?thesis
    unfolding digit_char_def digit_val_def by (elim disjE) simp_all
qed

lemma digit_char_zero: "digit_char n = CHR ''0'' \<longleftrightarrow> n mod 10 = 0"
proof -
  have "n mod 10 < 10" by simp
  from below_ten [OF this] show ?thesis
    unfolding digit_char_def by (elim disjE) simp_all
qed

lemma show_nat_nonempty: "show_nat n \<noteq> []"
  by (subst show_nat.simps) simp

lemma show_nat_digits: "c \<in> set (show_nat n) \<Longrightarrow> is_digit c"
proof (induction n arbitrary: c rule: show_nat.induct)
  case (1 n)
  then show ?case
    by (subst (asm) (2) show_nat.simps) (auto simp: is_digit_digit_char split: if_splits)
qed

lemma digits_val_snoc: "digits_val (ds @ [c]) = 10 * digits_val ds + digit_val c"
  by (simp add: digits_val_def)

lemma digits_val_show_nat: "digits_val (show_nat n) = n"
proof (induction n rule: show_nat.induct)
  case (1 n)
  show ?case
  proof (cases "n < 10")
    case True
    then show ?thesis
      by (subst show_nat.simps) (simp add: digits_val_def digit_val_digit_char)
  next
    case False
    with 1 have "digits_val (show_nat (n div 10)) = n div 10" by simp
    with False show ?thesis
      by (subst show_nat.simps) (simp add: digits_val_snoc digit_val_digit_char)
  qed
qed

lemma hd_show_nat: "0 < n \<Longrightarrow> hd (show_nat n) \<noteq> CHR ''0''"
proof (induction n rule: show_nat.induct)
  case (1 n)
  show ?case
  proof (cases "n < 10")
    case True
    with 1(2) show ?thesis
      by (subst show_nat.simps) (simp add: digit_char_zero)
  next
    case False
    with 1 have "hd (show_nat (n div 10)) \<noteq> CHR ''0''" by simp
    with False show ?thesis
      by (subst show_nat.simps) (simp add: show_nat_nonempty)
  qed
qed

lemma show_nat_zero: "show_nat 0 = ''0''"
  by (subst show_nat.simps) (simp add: digit_char_def)

lemma length_show_nat: "1 < length (show_nat n) \<Longrightarrow> 0 < n"
  by (cases "n = 0") (simp_all add: show_nat_zero)

lemma takeWhile_digits: "delimited rest \<Longrightarrow> takeWhile is_digit (show_nat n @ rest) = show_nat n"
  by (cases rest) (auto simp: delimited_def show_nat_digits)

lemma dropWhile_digits: "delimited rest \<Longrightarrow> dropWhile is_digit (show_nat n @ rest) = rest"
  by (cases rest) (auto simp: delimited_def show_nat_digits)

lemma hd_show_nat_digit: "is_digit (hd (show_nat n))"
  using show_nat_nonempty [of n] show_nat_digits [of "hd (show_nat n)" n] by simp

lemma hd_show_nat_not_minus: "hd (show_nat n) \<noteq> CHR ''-''"
  using hd_show_nat_digit [of n] by (auto simp: is_digit_def)

lemma parse_number_show_int:
  assumes "delimited rest"
  shows "parse_number (show_int i @ rest) = Some (i, rest)"
proof (cases "i < 0")
  case True
  then show ?thesis
    using assms length_show_nat [of "nat (- i)"] hd_show_nat [of "nat (- i)"]
    by (auto simp: parse_number_def show_int_def Let_def takeWhile_digits dropWhile_digits
        show_nat_nonempty digits_val_show_nat delimited_def)
next
  case False
  then show ?thesis
    using assms length_show_nat [of "nat i"] hd_show_nat [of "nat i"]
      hd_show_nat_not_minus [of "nat i"]
    by (auto simp: parse_number_def show_int_def Let_def takeWhile_digits dropWhile_digits
        show_nat_nonempty digits_val_show_nat delimited_def)
qed

subsection \<open>Strings\<close>

lemma hex_val_hex_digit:
  assumes "k < 16"
  shows "hex_val (hex_digit k) = Some k"
  using below_sixteen [OF assms] unfolding hex_val_def hex_digit_def
  by (elim disjE) simp_all

lemma hex4_low:
  assumes "n < 256"
  shows "hex4 CHR ''0'' CHR ''0'' (hex_digit (n div 16)) (hex_digit (n mod 16)) = Some (char_of n)"
proof -
  have "n div 16 < 16" "n mod 16 < 16" using assms by simp_all
  then have "hex_val (hex_digit (n div 16)) = Some (n div 16)"
    "hex_val (hex_digit (n mod 16)) = Some (n mod 16)"
    by (simp_all add: hex_val_hex_digit)
  moreover have "hex_val CHR ''0'' = Some 0" by (simp add: hex_val_def)
  ultimately show ?thesis using assms by (simp add: hex4_def)
qed

lemma of_char_below: "(of_char c :: nat) < 256"
proof -
  have "(of_char c :: nat) = of_char (char_of (of_char c :: nat))" by simp
  also have "\<dots> = (of_char c :: nat) mod 256" by (simp only: of_char_of)
  finally show ?thesis by (metis mod_less_divisor zero_less_numeral)
qed

lemma parse_chars_quote_char:
  assumes "parse_chars r = Some (str, rest)"
  shows "parse_chars (quote_char c @ r) = Some (c # str, rest)"
proof -
  have u: "hex4 CHR ''0'' CHR ''0'' (hex_digit (of_char c div 16)) (hex_digit (of_char c mod 16))
        = Some c"
    using hex4_low [OF of_char_below [of c]] by simp
  show ?thesis
    using assms u by (simp add: quote_char_def unescape_def)
qed

lemma parse_chars_quoted:
  "parse_chars (concat (map quote_char s) @ CHR 0x22 # rest) = Some (s, rest)"
  by (induction s) (simp_all add: parse_chars_quote_char)

lemma parse_chars_QuoteJSONString:
  "\<exists>body. QuoteJSONString s @ rest = CHR 0x22 # body \<and> parse_chars body = Some (s, rest)"
  by (simp add: QuoteJSONString_def parse_chars_quoted)

subsection \<open>The steps of the parser\<close>

lemma blank_simps [simp]: "blank []" "blank (w1 @ w2) \<longleftrightarrow> blank w1 \<and> blank w2"
  "blank (c # w) \<longleftrightarrow> json_ws c \<and> blank w"
  by (auto simp: blank_def)

lemma blank_replicate: "blank (replicate n CHR '' '')"
  by (simp add: blank_def json_ws_def)

lemma skip_ws_blank: "blank w \<Longrightarrow> skip_ws (w @ s) = skip_ws s"
  by (simp add: skip_ws_def blank_def)

lemma skip_ws_start: "\<not> json_ws c \<Longrightarrow> skip_ws (c # s) = c # s"
  by (simp add: skip_ws_def)

lemma parse_value_blank: "blank w \<Longrightarrow> parse_value (w @ s) = parse_value s"
  by (simp add: parse_value.simps skip_ws_blank)

lemma starts_value_show_int: "starts_value (show_int i)"
proof -
  have "starts_value (show_nat n)" for n
    using hd_show_nat_digit [of n] show_nat_nonempty [of n]
    by (auto simp: starts_value_def is_digit_def json_ws_def)
  then show ?thesis by (simp add: show_int_def starts_value_def json_ws_def)
qed

lemma starts_value_property:
  "SerializeJSONProperty gap ind v = Inr (Some t) \<Longrightarrow> starts_value t"
  using starts_value_show_int
  by (cases v)
     (auto simp: starts_value_def json_ws_def QuoteJSONString_def split: sum.splits if_splits)

lemma property_None: "SerializeJSONProperty gap ind v = Inr None \<Longrightarrow> v = JUndefined"
  by (cases v) (auto split: sum.splits)

lemma starts_value_elements:
  "SerializeJSONElements gap ind xs = Inr ts \<Longrightarrow> length ts = length xs \<and> (\<forall>t \<in> set ts. starts_value t)"
proof (induction xs arbitrary: ts)
  case Nil
  then show ?case by simp
next
  case (Cons x xs)
  then show ?case
    by (auto simp: starts_value_property split: sum.splits option.splits)
       (simp add: starts_value_def json_ws_def)
qed

lemma starts_members:
  "SerializeJSONMembers gap ind kvs = Inr ts \<Longrightarrow>
     length ts = length (json_members kvs) \<and> (\<forall>t \<in> set ts. t \<noteq> [] \<and> hd t = CHR 0x22)"
proof (induction kvs arbitrary: ts)
  case Nil
  then show ?case by simp
next
  case (Cons kv kvs)
  obtain k v where kv: "kv = (k, v)" by (cases kv)
  from Cons show ?case unfolding kv
    by (auto simp: QuoteJSONString_def split: sum.splits option.splits dest: property_None)
qed

lemma hd_js_join: "t \<noteq> [] \<Longrightarrow> hd (js_join sep (t # ts) @ s) = hd t"
  by (cases ts) simp_all

lemma js_join_nonempty: "t \<noteq> [] \<Longrightarrow> js_join sep (t # ts) \<noteq> []"
  by (cases ts) simp_all

text \<open>The steps of the parser, as rules.\<close>

lemma parse_value_null: "parse_value (''null'' @ rest) = Some (JNull, rest)"
  by (simp add: parse_value.simps skip_ws_def json_ws_def startsWith_def)

lemma parse_value_bool:
  "parse_value ((if b then ''true'' else ''false'') @ rest) = Some (JBool b, rest)"
  by (simp add: parse_value.simps skip_ws_def json_ws_def startsWith_def)

lemma parse_value_empty_array: "parse_value (''[]'' @ rest) = Some (JArr [], rest)"
  by (simp add: parse_value.simps skip_ws_def json_ws_def)

lemma parse_value_empty_object: "parse_value (''{}'' @ rest) = Some (JObj [], rest)"
  by (simp add: parse_value.simps skip_ws_def json_ws_def)

lemma parse_value_string:
  "parse_value (QuoteJSONString s @ rest) = Some (JStr s, rest)"
  by (simp add: parse_value.simps skip_ws_def json_ws_def QuoteJSONString_def parse_chars_quoted)

lemma hd_show_int: "\<exists>c r. show_int i = c # r \<and> (is_digit c \<or> c = CHR ''-'')"
proof (cases "i < 0")
  case True
  then show ?thesis by (simp add: show_int_def)
next
  case False
  obtain c r where "show_nat (nat i) = c # r"
    using show_nat_nonempty [of "nat i"] by (cases "show_nat (nat i)") auto
  moreover from this have "is_digit c" using show_nat_digits [of c "nat i"] by simp
  ultimately show ?thesis using False by (simp add: show_int_def)
qed

lemma parse_value_number:
  assumes "delimited rest"
  shows "parse_value (show_int i @ rest) = Some (JNum i, rest)"
proof -
  obtain c r where cr: "show_int i = c # r" and c: "is_digit c \<or> c = CHR ''-''"
    using hd_show_int [of i] by blast
  from c have n: "\<not> json_ws c" "c \<noteq> CHR ''[''" "c \<noteq> CHR ''{''" "c \<noteq> CHR 0x22"
    "c \<noteq> CHR ''t''" "c \<noteq> CHR ''f''" "c \<noteq> CHR ''n''"
    by (auto simp: is_digit_def json_ws_def)
  have "parse_number (c # r @ rest) = Some (i, rest)"
    using parse_number_show_int [OF assms, of i] by (simp add: cr)
  then show ?thesis
    using n by (simp add: parse_value.simps [of "c # r @ rest"] cr skip_ws_start startsWith_def)
qed

lemma parse_value_array:
  assumes "blank pre" "starts_value body" "parse_elements (pre @ body) = Some (xs, rest)"
  shows "parse_value (CHR ''['' # pre @ body) = Some (JArr xs, rest)"
proof -
  obtain c r where b: "body = c # r" using assms(2) by (cases body) (auto simp: starts_value_def)
  with assms(2) have c: "\<not> json_ws c" "c \<noteq> CHR '']''" by (auto simp: starts_value_def)
  have "skip_ws (pre @ body) = c # r"
    using assms(1) c(1) by (simp add: skip_ws_blank b skip_ws_start)
  then show ?thesis
    using assms(3) c(2) by (simp add: parse_value.simps [of "CHR ''['' # pre @ body"] skip_ws_start json_ws_def)
qed

lemma parse_value_object:
  assumes "blank pre" "body \<noteq> []" "hd body = CHR 0x22"
    "parse_members (pre @ body) = Some (kvs, rest)"
  shows "parse_value (CHR ''{'' # pre @ body) = Some (JObj (js_object kvs), rest)"
proof -
  obtain r where b: "body = CHR 0x22 # r" using assms(2,3) by (cases body) auto
  have "skip_ws (pre @ body) = CHR 0x22 # r"
    using assms(1) by (simp add: skip_ws_blank b skip_ws_start json_ws_def)
  then show ?thesis
    using assms(4) by (simp add: parse_value.simps [of "CHR ''{'' # pre @ body"] skip_ws_start json_ws_def)
qed

lemma parse_elements_last:
  assumes "parse_value s = Some (v, post @ CHR '']'' # rest)" "blank post"
  shows "parse_elements s = Some ([v], rest)"
  using assms by (simp add: parse_elements.simps [of s] skip_ws_blank skip_ws_start json_ws_def)

lemma parse_elements_more:
  assumes "parse_value s = Some (v, CHR '','' # r1)" "length r1 < length s"
    "parse_elements r1 = Some (vs, rest)"
  shows "parse_elements s = Some (v # vs, rest)"
  using assms by (simp add: parse_elements.simps [of s] skip_ws_start json_ws_def)

lemma skip_ws_quoted:
  "blank pre \<Longrightarrow> skip_ws (pre @ QuoteJSONString k @ s)
     = CHR 0x22 # concat (map quote_char k) @ CHR 0x22 # s"
  by (simp add: skip_ws_blank QuoteJSONString_def skip_ws_start json_ws_def)

lemma parse_members_last:
  assumes "blank pre" "blank sp"
    "parse_value (sp @ t) = Some (v, post @ CHR ''}'' # rest)" "blank post"
  shows "parse_members (pre @ QuoteJSONString k @ CHR '':'' # sp @ t) = Some ([(k, v)], rest)"
proof -
  let ?s = "pre @ QuoteJSONString k @ CHR '':'' # sp @ t"
  have 3: "skip_ws (CHR '':'' # sp @ t) = CHR '':'' # sp @ t"
    by (simp add: skip_ws_start json_ws_def)
  have 4: "length (sp @ t) < length ?s" by simp
  have 5: "skip_ws (post @ CHR ''}'' # rest) = CHR ''}'' # rest"
    using assms(4) by (simp add: skip_ws_blank skip_ws_start json_ws_def)
  show ?thesis
    apply (subst parse_members.simps)
    using assms(3) 4 apply (simp add: skip_ws_quoted [OF assms(1)] parse_chars_quoted 3 5)
    done
qed

lemma parse_members_more:
  assumes "blank pre" "blank sp"
    "parse_value (sp @ t) = Some (v, CHR '','' # r4)"
    "length r4 < length (sp @ t)"
    "parse_members r4 = Some (kvs, rest)"
  shows "parse_members (pre @ QuoteJSONString k @ CHR '':'' # sp @ t) = Some ((k, v) # kvs, rest)"
proof -
  let ?s = "pre @ QuoteJSONString k @ CHR '':'' # sp @ t"
  have 3: "skip_ws (CHR '':'' # sp @ t) = CHR '':'' # sp @ t"
    by (simp add: skip_ws_start json_ws_def)
  have 4: "length (sp @ t) < length ?s" by simp
  have 5: "length r4 < length ?s" using assms(4) 4 by simp
  have 6: "skip_ws (CHR '','' # r4) = CHR '','' # r4"
    by (simp add: skip_ws_start json_ws_def)
  show ?thesis
    apply (subst parse_members.simps)
    using assms(3,5) 4 5 apply (simp add: skip_ws_quoted [OF assms(1)] parse_chars_quoted 3 6)
    done
qed

subsection \<open>Parsing what \<^verbatim>\<open>JSON.stringify\<close> wrote\<close>

text \<open>
  Whatever \<^verbatim>\<open>JSON.stringify\<close> writes for a value, with any gap, \<^verbatim>\<open>JSON.parse\<close> reads back as the
  JSON image of the value.
\<close>

lemma delimited_close: "blank post \<Longrightarrow> c = CHR '']'' \<or> c = CHR ''}'' \<Longrightarrow> delimited (post @ c # rest)"
  by (cases post) (auto simp: delimited_def is_digit_def json_ws_def)

lemma delimited_comma: "delimited (CHR '','' # rest)"
  by (simp add: delimited_def is_digit_def)

lemma js_object_Nil: "js_object [] = []"
  by (simp add: js_object_def)

lemma js_join_Cons2: "ts \<noteq> [] \<Longrightarrow> js_join sep (t # ts) = t @ sep @ js_join sep ts"
  by (cases ts) simp_all

lemma hd_js_join0: "t \<noteq> [] \<Longrightarrow> hd (js_join sep (t # ts)) = hd t"
  by (cases ts) simp_all

lemma roundtrip:
  "blank gap \<Longrightarrow> blank ind \<Longrightarrow> SerializeJSONProperty gap ind v = Inr (Some t) \<Longrightarrow>
     delimited rest \<Longrightarrow> parse_value (t @ rest) = Some (json_of v, rest)"
  "blank gap \<Longrightarrow> blank ind \<Longrightarrow> blank pre \<Longrightarrow> blank w1 \<Longrightarrow> blank post \<Longrightarrow>
     SerializeJSONElements gap ind xs = Inr ts \<Longrightarrow> ts \<noteq> [] \<Longrightarrow>
     parse_elements (pre @ js_join (CHR '','' # w1) ts @ post @ CHR '']'' # rest)
       = Some (json_elements xs, rest)"
  "blank gap \<Longrightarrow> blank ind \<Longrightarrow> blank pre \<Longrightarrow> blank w1 \<Longrightarrow> blank post \<Longrightarrow>
     SerializeJSONMembers gap ind kvs = Inr ts \<Longrightarrow> ts \<noteq> [] \<Longrightarrow>
     parse_members (pre @ js_join (CHR '','' # w1) ts @ post @ CHR ''}'' # rest)
       = Some (json_members kvs, rest)"
proof (induction gap ind v and gap ind xs and gap ind kvs
    arbitrary: t rest and ts pre w1 post rest and ts pre w1 post rest
    rule: SerializeJSONProperty_SerializeJSONElements_SerializeJSONMembers.induct)
  case (1 gap indent)
  then show ?case by simp
next
  case (2 gap indent)
  then show ?case using parse_value_null [of rest] by auto
next
  case (3 gap indent b)
  then show ?case using parse_value_bool [of b rest] by auto
next
  case (4 gap indent n)
  then show ?case using parse_value_number [of rest n] by auto
next
  case (5 gap indent n)
  then show ?case by simp
next
  case (6 gap indent s)
  then show ?case using parse_value_string [of s rest] by auto
next
  case (7 gap indent stack msg)
  then show ?case using parse_value_empty_object [of rest] by auto
next
  case (8 gap indent xs)
  from 8(4) obtain partial where
    ser: "SerializeJSONElements gap (indent @ gap) xs = Inr partial" and
    t: "t = (if partial = [] then ''[]''
             else if gap = [] then ''['' @ js_join '','' partial @ '']''
             else ''['' @ [CHR 0x0A] @ (indent @ gap)
                  @ js_join ('','' @ [CHR 0x0A] @ (indent @ gap)) partial
                  @ [CHR 0x0A] @ indent @ '']'')"
    by (auto split: sum.splits)
  from starts_value_elements [OF ser]
  have len: "length partial = length xs" and sv: "\<forall>t \<in> set partial. starts_value t" by auto
  show ?case
  proof (cases "partial = []")
    case True
    with len t show ?thesis using parse_value_empty_array [of rest] by simp
  next
    case False
    then obtain t1 ts' where p: "partial = t1 # ts'" by (cases partial) auto
    with sv have t1: "starts_value t1" by simp
    define pre where "pre = (if gap = [] then [] else CHR 0x0A # indent @ gap)"
    define post where "post = (if gap = [] then [] else CHR 0x0A # indent)"
    have bl: "blank pre" "blank post"
      using 8(2,3) by (auto simp: pre_def post_def json_ws_def)
    let ?body = "js_join (CHR '','' # pre) partial @ post @ CHR '']'' # rest"
    have eq: "t @ rest = CHR ''['' # pre @ ?body"
      using False by (simp add: t pre_def post_def)
    have sb: "starts_value ?body"
      using t1 by (simp add: starts_value_def p hd_js_join0 js_join_nonempty)
    have "parse_elements (pre @ ?body) = Some (json_elements xs, rest)"
      using 8(1) [OF 8(2) _ bl(1) bl(1) bl(2) ser False] 8(2,3) by simp
    from parse_value_array [OF bl(1) sb this] show ?thesis by (simp add: eq)
  qed
next
  case (9 gap indent kvs)
  from 9(4) obtain partial where
    ser: "SerializeJSONMembers gap (indent @ gap) kvs = Inr partial" and
    t: "t = (if partial = [] then ''{}''
             else if gap = [] then ''{'' @ js_join '','' partial @ ''}''
             else ''{'' @ [CHR 0x0A] @ (indent @ gap)
                  @ js_join ('','' @ [CHR 0x0A] @ (indent @ gap)) partial
                  @ [CHR 0x0A] @ indent @ ''}'')"
    by (auto split: sum.splits)
  from starts_members [OF ser]
  have len: "length partial = length (json_members kvs)"
    and sv: "\<forall>t \<in> set partial. t \<noteq> [] \<and> hd t = CHR 0x22" by auto
  show ?case
  proof (cases "partial = []")
    case True
    with len t show ?thesis using parse_value_empty_object [of rest] by (simp add: js_object_Nil)
  next
    case False
    then obtain t1 ts' where p: "partial = t1 # ts'" by (cases partial) auto
    with sv have t1: "t1 \<noteq> []" "hd t1 = CHR 0x22" by simp_all
    define pre where "pre = (if gap = [] then [] else CHR 0x0A # indent @ gap)"
    define post where "post = (if gap = [] then [] else CHR 0x0A # indent)"
    have bl: "blank pre" "blank post"
      using 9(2,3) by (auto simp: pre_def post_def json_ws_def)
    let ?body = "js_join (CHR '','' # pre) partial @ post @ CHR ''}'' # rest"
    have eq: "t @ rest = CHR ''{'' # pre @ ?body"
      using False by (simp add: t pre_def post_def)
    have sb: "?body \<noteq> []" "hd ?body = CHR 0x22"
      using t1 by (simp_all add: p hd_js_join0 js_join_nonempty)
    have "parse_members (pre @ ?body) = Some (json_members kvs, rest)"
      using 9(1) [OF 9(2) _ bl(1) bl(1) bl(2) ser False] 9(2,3) by simp
    from parse_value_object [OF bl(1) sb this] show ?thesis by (simp add: eq)
  qed
next
  case (10 gap indent)
  then show ?case by simp
next
  case (11 gap indent x xs)
  from 11(8) obtain strP ts' where
    sx: "SerializeJSONProperty gap indent x = Inr strP" and
    sxs: "SerializeJSONElements gap indent xs = Inr ts'" and
    ts: "ts = (case strP of None \<Rightarrow> ''null'' | Some t \<Rightarrow> t) # ts'"
    by (auto split: sum.splits)
  define t1 where "t1 = (case strP of None \<Rightarrow> ''null'' | Some t \<Rightarrow> t)"
  define e1 where "e1 = (if x = JUndefined then JNull else json_of x)"
  have elem: "parse_value (t1 @ rest') = Some (e1, rest')" if "delimited rest'" for rest'
  proof (cases strP)
    case None
    with sx have "x = JUndefined" by (simp add: property_None)
    with None show ?thesis using parse_value_null [of rest'] by (simp add: t1_def e1_def)
  next
    case (Some tx)
    with sx have "x \<noteq> JUndefined" by auto
    with Some 11(1) [OF 11(3,4) _ that, of tx] sx show ?thesis by (simp add: t1_def e1_def)
  qed
  from starts_value_elements [OF sxs] have len: "length ts' = length xs" by simp
  show ?case
  proof (cases "ts' = []")
    case True
    with len have xs: "xs = []" by simp
    have "parse_value (pre @ t1 @ post @ CHR '']'' # rest) = Some (e1, post @ CHR '']'' # rest)"
      using elem [OF delimited_close [OF 11(7), of "CHR '']''" rest]] 11(5)
      by (simp add: parse_value_blank)
    from parse_elements_last [OF this 11(7)] show ?thesis
      using True xs by (simp add: ts t1_def e1_def)
  next
    case False
    let ?r1 = "w1 @ js_join (CHR '','' # w1) ts' @ post @ CHR '']'' # rest"
    let ?s = "pre @ t1 @ CHR '','' # ?r1"
    have 1: "parse_value ?s = Some (e1, CHR '','' # ?r1)"
      using elem [OF delimited_comma, of ?r1] 11(5) by (simp add: parse_value_blank)
    have 2: "length ?r1 < length ?s" by simp
    have 3: "parse_elements ?r1 = Some (json_elements xs, rest)"
      using 11(2) [OF sx 11(3,4) 11(6) 11(6) 11(7) sxs False] by simp
    have "pre @ js_join (CHR '','' # w1) ts @ post @ CHR '']'' # rest = ?s"
      using False by (simp add: ts t1_def js_join_Cons2)
    with parse_elements_more [OF 1 2 3] show ?thesis by (simp add: e1_def)
  qed
next
  case (12 gap indent)
  then show ?case by simp
next
  case (13 gap indent k v kvs)
  from 13(8) obtain strP ts' where
    sv: "SerializeJSONProperty gap indent v = Inr strP" and
    skvs: "SerializeJSONMembers gap indent kvs = Inr ts'" and
    ts: "ts = (case strP of
                 None \<Rightarrow> ts'
               | Some t \<Rightarrow> (QuoteJSONString k @ '':'' @ (if gap = [] then [] else '' '') @ t) # ts')"
    by (auto split: sum.splits)
  show ?case
  proof (cases strP)
    case None
    with sv have "v = JUndefined" by (simp add: property_None)
    with None ts 13(2) [OF sv 13(3,4,5,6,7) skvs] 13(9) show ?thesis by simp
  next
    case (Some tv)
    with sv have v: "v \<noteq> JUndefined" by auto
    define sp where "sp = (if gap = [] then [] else '' '')"
    have sp: "blank sp" by (simp add: sp_def json_ws_def)
    have ts2: "ts = (QuoteJSONString k @ CHR '':'' # sp @ tv) # ts'"
      using ts Some by (simp add: sp_def)
    have val: "parse_value (sp @ tv @ rest') = Some (json_of v, rest')" if "delimited rest'" for rest'
      using 13(1) [OF 13(3,4) _ that, of tv] sv Some sp by (simp add: parse_value_blank)
    show ?thesis
    proof (cases "ts' = []")
      case True
      with starts_members [OF skvs] have kvs: "json_members kvs = []" by simp
      have "parse_value (sp @ tv @ post @ CHR ''}'' # rest) = Some (json_of v, post @ CHR ''}'' # rest)"
        using val [OF delimited_close [OF 13(7), of "CHR ''}''" rest]] by simp
      from parse_members_last [OF 13(5) sp this 13(7), of k] show ?thesis
        using True kvs v by (simp add: ts2)
    next
      case False
      let ?r4 = "w1 @ js_join (CHR '','' # w1) ts' @ post @ CHR ''}'' # rest"
      have 1: "parse_value (sp @ tv @ CHR '','' # ?r4) = Some (json_of v, CHR '','' # ?r4)"
        using val [OF delimited_comma, of ?r4] by simp
      have 2: "length ?r4 < length (sp @ tv @ CHR '','' # ?r4)" by simp
      have 3: "parse_members ?r4 = Some (json_members kvs, rest)"
        using 13(2) [OF sv 13(3,4) 13(6) 13(6) 13(7) skvs False] by simp
      have "pre @ js_join (CHR '','' # w1) ts @ post @ CHR ''}'' # rest
            = pre @ QuoteJSONString k @ CHR '':'' # sp @ tv @ CHR '','' # ?r4"
        using False by (simp add: ts2 js_join_Cons2)
      with parse_members_more [OF 13(5) sp 1 2 3, of k] show ?thesis
        using v by simp
    qed
  qed
qed

lemma parse_stringify:
  assumes "JSON_stringify v n = Inr (Some s)"
  shows "JSON_parse s = Inr (json_of v)"
proof -
  have "parse_value (s @ []) = Some (json_of v, [])"
    using roundtrip(1) [of "replicate (min n 10) CHR '' ''" "[]" v s "[]"] assms
    by (simp add: JSON_stringify_def blank_replicate delimited_def)
  then show ?thesis by (simp add: JSON_parse_def skip_ws_def)
qed

subsection \<open>The parser always moves on\<close>

text \<open>
  A successful parse leaves strictly less text than it was given. So the tests on the length
  in \<^const>\<open>parse_elements\<close> and \<^const>\<open>parse_members\<close> never refuse a text.
\<close>

lemma parse_chars_shorter: "parse_chars r = Some (str, rest) \<Longrightarrow> length rest < length r"
proof (induction r arbitrary: str rest rule: parse_chars.induct)
  case 1
  then show ?case by simp
next
  case (2 c r)
  show ?case
  proof (cases "c = CHR 0x22")
    case True
    with 2(4) show ?thesis by simp
  next
    case nq: False
    show ?thesis
    proof (cases "c = CHR 0x5C")
      case True
      show ?thesis
      proof (cases r)
        case Nil
        with 2(4) nq True show ?thesis by simp
      next
        case (Cons e r1)
        show ?thesis
        proof (cases "e = CHR ''u''")
          case u: True
          from 2(4) nq True Cons u obtain a b c' d r2 ch str' where
            r1: "r1 = a # b # c' # d # r2" and h: "hex4 a b c' d = Some ch"
            and p: "parse_chars r2 = Some (str', rest)"
            by (auto split: list.splits option.splits)
          from 2(1) [OF nq True Cons u r1 refl refl refl h p] show ?thesis
            by (simp add: Cons r1)
        next
          case nu: False
          from 2(4) nq True Cons nu obtain ch str' where
            h: "unescape e = Some ch" and p: "parse_chars r1 = Some (str', rest)"
            by (auto split: option.splits)
          from 2(2) [OF nq True Cons nu h p] show ?thesis by (simp add: Cons)
        qed
      qed
    next
      case False
      with 2(4) nq obtain str' where c: "\<not> of_char c < (32::nat)"
        and p: "parse_chars r = Some (str', rest)"
        by (auto split: option.splits if_splits)
      from 2(3) [OF nq False c p] show ?thesis by simp
    qed
  qed
qed

lemma parse_number_shorter: "parse_number s = Some (n, rest) \<Longrightarrow> length rest < length s"
proof -
  assume a: "parse_number s = Some (n, rest)"
  define s1 where "s1 = (if s \<noteq> [] \<and> hd s = CHR ''-'' then tl s else s)"
  from a have ds: "takeWhile is_digit s1 \<noteq> []" and rest: "rest = dropWhile is_digit s1"
    by (auto simp: parse_number_def Let_def s1_def split: if_splits)
  have "length s1 = length (takeWhile is_digit s1) + length (dropWhile is_digit s1)"
    by (metis length_append takeWhile_dropWhile_id)
  with ds rest have "length rest < length s1" by (cases "takeWhile is_digit s1") auto
  moreover have "length s1 \<le> length s" by (simp add: s1_def)
  ultimately show ?thesis by simp
qed

lemma skip_ws_length: "length (skip_ws s) \<le> length s"
  by (simp add: skip_ws_def length_dropWhile_le)

lemma skip_ws_Cons_length: "skip_ws s = c # r \<Longrightarrow> length r < length s"
  using skip_ws_length [of s] by simp

lemma parse_value_shorter:
  "parse_value s = Some (v, rest) \<Longrightarrow> length rest < length s"
  "parse_elements s = Some (vs, rest) \<Longrightarrow> length rest < length s"
  "parse_members s = Some (kvs, rest) \<Longrightarrow> length rest < length s"
proof (induction s and s and s arbitrary: v rest and vs rest and kvs rest
    rule: parse_value_parse_elements_parse_members.induct)
  case (1 s)
  from 1(3) obtain c r where sk: "skip_ws s = c # r"
    by (subst (asm) parse_value.simps) (auto split: list.splits)
  note len = skip_ws_Cons_length [OF sk]
  from 1(3) have res: "(if c = CHR ''['' then
            (case skip_ws r of
               [] \<Rightarrow> None
             | c1 # r1 \<Rightarrow>
                 if c1 = CHR '']'' then Some (JArr [], r1)
                 else (case parse_elements r of
                         None \<Rightarrow> None
                       | Some (xs, rest) \<Rightarrow> Some (JArr xs, rest)))
          else if c = CHR ''{'' then
            (case skip_ws r of
               [] \<Rightarrow> None
             | c1 # r1 \<Rightarrow>
                 if c1 = CHR ''}'' then Some (JObj [], r1)
                 else (case parse_members r of
                         None \<Rightarrow> None
                       | Some (kvs, rest) \<Rightarrow> Some (JObj (js_object kvs), rest)))
          else if c = CHR 0x22 then
            (case parse_chars r of
               None \<Rightarrow> None
             | Some (str, rest) \<Rightarrow> Some (JStr str, rest))
          else if startsWith (c # r) ''true'' then Some (JBool True, drop 4 (c # r))
          else if startsWith (c # r) ''false'' then Some (JBool False, drop 5 (c # r))
          else if startsWith (c # r) ''null'' then Some (JNull, drop 4 (c # r))
          else (case parse_number (c # r) of
                  None \<Rightarrow> None
                | Some (n, rest) \<Rightarrow> Some (JNum n, rest))) = Some (v, rest)"
    by (subst (asm) parse_value.simps) (simp add: sk)
  show ?case
  proof (cases "c = CHR ''[''")
    case True
    with res obtain c1 r1 where sk1: "skip_ws r = c1 # r1" by (auto split: list.splits)
    show ?thesis
    proof (cases "c1 = CHR '']''")
      case c1: True
      with res True sk1 have "rest = r1" by simp
      with skip_ws_Cons_length [OF sk1] len show ?thesis by simp
    next
      case c1: False
      with res True sk1 obtain xs where "parse_elements r = Some (xs, rest)"
        by (auto split: option.splits)
      from 1(1) [OF sk True sk1 c1 this] len show ?thesis by simp
    qed
  next
    case nb: False
    show ?thesis
    proof (cases "c = CHR ''{''")
      case True
      with res nb obtain c1 r1 where sk1: "skip_ws r = c1 # r1" by (auto split: list.splits)
      show ?thesis
      proof (cases "c1 = CHR ''}''")
        case c1: True
        with res nb True sk1 have "rest = r1" by simp
        with skip_ws_Cons_length [OF sk1] len show ?thesis by simp
      next
        case c1: False
        with res nb True sk1 obtain kvs where "parse_members r = Some (kvs, rest)"
          by (auto split: option.splits)
        from 1(2) [OF sk nb True sk1 c1 this] len show ?thesis by simp
      qed
    next
      case no: False
      have dr: "length (drop k (c # r)) \<le> Suc (length r)" for k by simp
      from res nb no len show ?thesis
        using parse_chars_shorter [of r] parse_number_shorter [of "c # r"]
        by (auto split: if_splits option.splits simp: startsWith_def)
    qed
  qed
next
  case (2 s)
  from 2(3) obtain v r where pv: "parse_value s = Some (v, r)"
    by (subst (asm) parse_elements.simps) (auto split: option.splits)
  from 2(3) pv obtain c r1 where sk: "skip_ws r = c # r1"
    by (subst (asm) parse_elements.simps) (auto split: list.splits)
  note l1 = 2(1) [OF pv]
  note l2 = skip_ws_Cons_length [OF sk]
  show ?case
  proof (cases "c = CHR '',''")
    case True
    with 2(3) pv sk obtain vs' where g: "length r1 < length s"
      and pe: "parse_elements r1 = Some (vs', rest)"
      by (subst (asm) parse_elements.simps) (auto split: option.splits if_splits)
    from 2(2) [OF pv refl sk True g pe] g show ?thesis by simp
  next
    case False
    with 2(3) pv sk have "rest = r1"
      by (subst (asm) parse_elements.simps) (auto split: if_splits)
    with l1 l2 show ?thesis by simp
  qed
next
  case (3 s)
  from 3(3) obtain c r where sk: "skip_ws s = c # r" and c: "c = CHR 0x22"
    by (subst (asm) parse_members.simps) (auto split: list.splits if_splits)
  from 3(3) sk c obtain k r1 where pc: "parse_chars r = Some (k, r1)"
    by (subst (asm) parse_members.simps) (auto split: option.splits)
  from 3(3) sk c pc obtain c1 r2 where sk1: "skip_ws r1 = c1 # r2"
    and c1: "c1 = CHR '':'' \<and> length r2 < length s"
    by (subst (asm) parse_members.simps) (auto split: list.splits if_splits)
  from 3(3) sk c pc sk1 c1 obtain v r3 where pv: "parse_value r2 = Some (v, r3)"
    by (subst (asm) parse_members.simps) (auto split: option.splits)
  from 3(3) sk c pc sk1 c1 pv obtain c3 r4 where sk3: "skip_ws r3 = c3 # r4"
    by (subst (asm) parse_members.simps) (auto split: list.splits)
  note l = 3(1) [OF sk c pc refl sk1 c1 pv] skip_ws_Cons_length [OF sk3]
  show ?case
  proof (cases "c3 = CHR '',''")
    case True
    with 3(3) sk c pc sk1 c1 pv sk3 obtain kvs' where g: "length r4 < length s"
      and pm: "parse_members r4 = Some (kvs', rest)"
      by (subst (asm) parse_members.simps) (auto split: option.splits if_splits)
    from 3(2) [OF sk c pc refl sk1 c1 pv refl sk3 True g pm] g show ?thesis by simp
  next
    case False
    with 3(3) sk c pc sk1 c1 pv sk3 have "rest = r4"
      by (subst (asm) parse_members.simps) (auto split: if_splits)
    with l c1 show ?thesis by simp
  qed
qed

section \<open>Properties of the JSON store\<close>

subsection \<open>One write, one read\<close>

lemma stringify_array:
  assumes "serializable_list xs"
  shows "\<exists>s. JSON_stringify (JArr xs) n = Inr (Some s)"
proof -
  obtain ts where "SerializeJSONElements (replicate (min n 10) CHR '' '')
      ([] @ replicate (min n 10) CHR '' '') xs = Inr ts"
    using serialize_total(2) [OF assms] by blast
  then show ?thesis by (simp add: JSON_stringify_def)
qed



lemma mkdir_step:
  "(if \<not> existsFileSync fs (path_dirname p) then mkdir fs (path_dirname p) else Inr fs)
     = Inr (ensured fs p)"
  by (auto simp: existsFileSync_def existsSync_def mkdir_def mkdirSync_def ensured_def)

lemma write_fresh:
  assumes "fresh fs p" "JSON_stringify (JArr (normalized d)) 2 = Inr (Some s)"
  shows "writeJSONFile fs \<lparr>param_filePath = p, param_data = d, param_overwrite = ow\<rparr>
           = (Inr (), (ensured fs p)(p \<mapsto> File s))"
proof -
  from assms(1) have 1: "ensured fs p p = None" "ensured fs p (path_dirname p) = Some Dir"
    by (auto simp: fresh_def ensured_def)
  show ?thesis
    using assms(2) 1 unfolding writeJSONFile_def writeJSONFile_try_def mkdir_step
    by (simp add: existsFileSync_def existsSync_def writeFile_def normalized_def)
qed

lemma write_overwrite:
  assumes "fs p = Some (File c)" "JSON_stringify (JArr (normalized d)) 2 = Inr (Some s)"
  shows "writeJSONFile fs \<lparr>param_filePath = p, param_data = d, param_overwrite = Some True\<rparr>
           = (Inr (), (ensured fs p)(p \<mapsto> File s))"
proof -
  from assms(1) have 1: "ensured fs p p = Some (File c)"
    by (auto simp: ensured_def)
  show ?thesis
    using assms(2) 1 unfolding writeJSONFile_def writeJSONFile_try_def mkdir_step
    by (simp add: existsFileSync_def existsSync_def writeFile_def normalized_def)
qed

lemma write_append:
  assumes "fs p = Some (File c)" "JSON_parse c = Inr v" "notOverwrite ow"
    "JSON_stringify (JArr ((if isArray v then elements v else []) @ normalized d)) 2 = Inr (Some s)"
  shows "writeJSONFile fs \<lparr>param_filePath = p, param_data = d, param_overwrite = ow\<rparr>
           = (Inr (), (ensured fs p)(p \<mapsto> File s))"
proof -
  from assms(1) have 1: "ensured fs p p = Some (File c)"
    by (auto simp: ensured_def)
  have 2: "(case ow of None \<Rightarrow> False | Some b \<Rightarrow> b) = False"
    using assms(3) by (auto simp: notOverwrite_def)
  show ?thesis
    using assms(2,4) 1 unfolding writeJSONFile_def writeJSONFile_try_def mkdir_step
    by (cases "isArray v"; cases "isArray d")
       (simp_all add: existsFileSync_def existsSync_def writeFile_def readFile_def
          normalized_def 2 Let_def)
qed

lemma read_file:
  assumes "fs p = Some (File c)" "JSON_parse c = Inr (JArr xs)"
  shows "readJSONFile fs p = Inr (JArr xs)"
  using assms by (simp add: readJSONFile_def existsSync_def readFile_def)




lemma json_elements_append: "json_elements (xs @ ys) = json_elements xs @ json_elements ys"
  by (induction xs) simp_all

lemma serializable_list_append:
  "serializable_list (xs @ ys) \<longleftrightarrow> serializable_list xs \<and> serializable_list ys"
  by (induction xs) simp_all

lemma store_append_order:
  assumes "fresh fs p" "serializable_list xs" "serializable_list ys"
    "json_elements xs = xs" "json_elements ys = ys" "notOverwrite ow"
  shows "\<exists>fs1 fs2.
           writeJSONFile fs \<lparr>param_filePath = p, param_data = JArr xs, param_overwrite = Some True\<rparr>
             = (Inr (), fs1)
         \<and> writeJSONFile fs1 \<lparr>param_filePath = p, param_data = JArr ys, param_overwrite = ow\<rparr>
             = (Inr (), fs2)
         \<and> readJSONFile fs2 p = Inr (JArr (xs @ ys))"
proof -
  obtain s1 where s1: "JSON_stringify (JArr (normalized (JArr xs))) 2 = Inr (Some s1)"
    using stringify_array [OF assms(2)] by (auto simp: normalized_def)
  define fs1 where "fs1 = (ensured fs p)(p \<mapsto> File s1)"
  have w1: "writeJSONFile fs \<lparr>param_filePath = p, param_data = JArr xs, param_overwrite = Some True\<rparr>
             = (Inr (), fs1)"
    unfolding fs1_def using write_fresh [of fs p "JArr xs" s1 "Some True"] assms(1) s1 by simp
  have p1: "JSON_parse s1 = Inr (JArr xs)"
    using parse_stringify [OF s1] assms(4) by (simp add: normalized_def)
  have f1: "fs1 p = Some (File s1)" by (simp add: fs1_def)
  obtain s2 where s2: "JSON_stringify (JArr (xs @ ys)) 2 = Inr (Some s2)"
    using stringify_array [of "xs @ ys"] assms(2,3) by (auto simp: serializable_list_append)
  define fs2 where "fs2 = (ensured fs1 p)(p \<mapsto> File s2)"
  have w2: "writeJSONFile fs1 \<lparr>param_filePath = p, param_data = JArr ys, param_overwrite = ow\<rparr>
             = (Inr (), fs2)"
    using write_append [of fs1 p s1 "JArr xs" ow "JArr ys" s2] f1 p1 assms(6) s2
    by (simp add: normalized_def fs2_def)
  have p2: "JSON_parse s2 = Inr (JArr (xs @ ys))"
    using parse_stringify [OF s2] assms(4,5) by (simp add: json_elements_append)
  have "readJSONFile fs2 p = Inr (JArr (xs @ ys))"
    using read_file [of fs2 p s2 "xs @ ys"] p2 by (simp add: fs2_def)
  with w1 w2 show ?thesis by blast
qed

lemma example_fresh: "fresh Map.empty example_path"
  by (simp add: fresh_def example_path_def path_dirname_def)





subsection \<open>The claims about the store\<close>

text \<open>
  C1. On a fresh file path, writing \<^verbatim>\<open>[{"a":1}]\<close> with \<^verbatim>\<open>overwrite\<close> true, then writing
  \<^verbatim>\<open>[{"a":2}]\<close> with \<^verbatim>\<open>overwrite\<close> false, both succeed, and reading the path then returns
  \<^verbatim>\<open>[{"a":1},{"a":2}]\<close>: the existing entry first, the appended one after it.
\<close>

theorem json_store_round_trip:
  assumes "fresh fs p"
  shows "\<exists>fs1 fs2.
           writeJSONFile fs \<lparr>param_filePath = p, param_data = JArr [JObj [(''a'', JNum 1)]],
                              param_overwrite = Some True\<rparr> = (Inr (), fs1)
         \<and> writeJSONFile fs1 \<lparr>param_filePath = p, param_data = JArr [JObj [(''a'', JNum 2)]],
                               param_overwrite = Some False\<rparr> = (Inr (), fs2)
         \<and> readJSONFile fs2 p = Inr (JArr [JObj [(''a'', JNum 1)], JObj [(''a'', JNum 2)]])"
  using store_append_order [of fs p "[JObj [(''a'', JNum 1)]]" "[JObj [(''a'', JNum 2)]]" "Some False"]
    assms
  by (simp add: js_object_def obj_put_def notOverwrite_def)

theorem json_store_round_trip_witness:
  "fresh Map.empty example_path
   \<and> (\<exists>fs1 fs2.
           writeJSONFile Map.empty \<lparr>param_filePath = example_path, param_data = JArr [JObj [(''a'', JNum 1)]],
                              param_overwrite = Some True\<rparr> = (Inr (), fs1)
         \<and> writeJSONFile fs1 \<lparr>param_filePath = example_path, param_data = JArr [JObj [(''a'', JNum 2)]],
                               param_overwrite = Some False\<rparr> = (Inr (), fs2)
         \<and> readJSONFile fs2 example_path = Inr (JArr [JObj [(''a'', JNum 1)], JObj [(''a'', JNum 2)]]))"
  using json_store_round_trip [of Map.empty example_path] example_fresh by blast







section \<open>Properties of the buffer digest\<close>

lemma hex_digit_in: "hex_digit n \<in> set ''0123456789abcdef''"
proof -
  have "n mod 16 < length ''0123456789abcdef''" by simp
  then show ?thesis unfolding hex_digit_def by (rule nth_mem)
qed

lemma digest_hex_length: "length (digest_hex w) = 64"
  by (simp add: digest_hex_def)

lemma digest_hex_chars: "set (digest_hex w) \<subseteq> set ''0123456789abcdef''"
proof
  fix c assume "c \<in> set (digest_hex w)"
  then obtain i where "c = hex_digit (unat (drop_bit (4 * (63 - i)) w) mod 16)"
    unfolding digest_hex_def by (auto simp only: set_map)
  then show "c \<in> set ''0123456789abcdef''" by (simp only: hex_digit_in)
qed

lemma example_digest:
  "digest_hex 0xba7816bf8f01cfea414140de5dae2223b00361a396177a9cb410ff61f20015ad
     = ''ba7816bf8f01cfea414140de5dae2223b00361a396177a9cb410ff61f20015ad''"
  unfolding digest_hex_def hex_digit_def
  by (simp add: upt_rec drop_bit_eq_div unat_div)

text \<open>
  C9. Both buffer functions fail with the input-validation error on a value that is not a
  buffer and on an empty buffer. On every non-empty buffer \<^verbatim>\<open>calculateHashByBuffer\<close> returns
  64 characters, each a lower-case hexadecimal digit, a function of the bytes alone, and
  \<^verbatim>\<open>calculateSizeByBuffer\<close> returns the number of bytes.
\<close>

theorem buffer_digest_and_size:
  "calculateHashByBuffer sha256 (NotBuffer v) = Inl (Error ''Input must be a Buffer'')
   \<and> calculateSizeByBuffer (NotBuffer v) = Inl (Error ''Input must be a Buffer'')
   \<and> calculateHashByBuffer sha256 (Buffer []) = Inl (Error ''Buffer cannot be empty'')
   \<and> calculateSizeByBuffer (Buffer []) = Inl (Error ''Buffer cannot be empty'')
   \<and> (bytes \<noteq> [] \<longrightarrow>
        (\<exists>s. calculateHashByBuffer sha256 (Buffer bytes) = Inr s \<and> length s = 64
              \<and> set s \<subseteq> set ''0123456789abcdef'')
        \<and> calculateSizeByBuffer (Buffer bytes) = Inr (length bytes))"
proof -
  have "\<exists>s. calculateHashByBuffer sha256 (Buffer bytes) = Inr s \<and> length s = 64
              \<and> set s \<subseteq> set ''0123456789abcdef''" if "bytes \<noteq> []"
    using that digest_hex_length [of "sha256 bytes"] digest_hex_chars [of "sha256 bytes"]
    unfolding calculateHashByBuffer_def by (intro exI [of _ "digest_hex (sha256 bytes)"]) simp
  then show ?thesis
    by (simp add: calculateHashByBuffer_def calculateSizeByBuffer_def del: set_simps)
qed

theorem buffer_digest_and_size_witness:
  "[0x61, 0x62, 0x63 :: 8 word] \<noteq> []
   \<and> calculateHashByBuffer abc_digest (Buffer [0x61, 0x62, 0x63])
       = Inr ''ba7816bf8f01cfea414140de5dae2223b00361a396177a9cb410ff61f20015ad''
   \<and> length ''ba7816bf8f01cfea414140de5dae2223b00361a396177a9cb410ff61f20015ad'' = 64
   \<and> calculateSizeByBuffer (Buffer [0x61, 0x62, 0x63]) = Inr 3"
proof -
  have 1: "[0x61, 0x62, 0x63 :: 8 word] \<noteq> []" by simp
  have 2: "calculateHashByBuffer abc_digest (Buffer [0x61, 0x62, 0x63])
       = Inr ''ba7816bf8f01cfea414140de5dae2223b00361a396177a9cb410ff61f20015ad''"
    using example_digest by (simp add: calculateHashByBuffer_def abc_digest_def)
  from buffer_digest_and_size [of abc_digest JNull "[0x61, 0x62, 0x63]"] 1 2
  show ?thesis by simp
qed

end
